theory Spec2Isabelle
  imports
    Complex_Main
    "HOL-Library.Word"
    "HOL-Library.Finite_Map"
    "HOL-Library.Log_Nat"
    "HOL-Library.Char_ord"
    "HOL-Library.List_Lexorder"
begin

section \<open>Data model of \<^verbatim>\<open>src/exe.cpp\<close>\<close>

text \<open>
  Conventions of the embedding.
  \<^item> \<^verbatim>\<open>size_t\<close> and \<^verbatim>\<open>uint64_t\<close> values that the program stores or counts with
    (\<^verbatim>\<open>++\<close>, \<^verbatim>\<open>--\<close>) are 64-bit words, so that increments and decrements wrap as in C++.
    The size of a container (\<^verbatim>\<open>clients_.size()\<close>, \<^verbatim>\<open>measurements.size()\<close>) is the natural
    number of its elements.
  \<^item> \<^verbatim>\<open>double\<close> is idealised as \<open>real\<close>: the rounding of \<^verbatim>\<open>+\<close>, \<^verbatim>\<open>-\<close>, \<^verbatim>\<open>*\<close> and \<^verbatim>\<open>/\<close> on doubles,
    infinities and NaN are outside the model. The conversion of an unsigned integer to
    \<^verbatim>\<open>double\<close> does round in the model, as it does in the program above \<open>2\<^sup>5\<^sup>3\<close>.
  \<^item> A \<^verbatim>\<open>time_point\<close> is its integer tick count; the tick is one nanosecond. Every call of
    \<^verbatim>\<open>now()\<close> in the source is a parameter of the function that makes the call.
  \<^item> A data member whose name ends in an underscore in the source (\<^verbatim>\<open>tokens_\<close>) carries the
    suffix \<open>_m\<close> here (\<open>tokens_m\<close>), since a name of a constant cannot end in an underscore.
  \<^item> Mutation is state passing: a member function takes the object and returns the new one,
    next to its result. The mutexes, the atomics and the cleanup thread are not modelled;
    one call runs at a time.
\<close>

type_synonym size_t = "64 word"
type_synonym uint64_t = "64 word"
type_synonym time_point = int

record RateLimiterConfig =
  defaultBucketSize :: size_t
  defaultRefillRate :: real
  cleanupInterval :: int \<comment> \<open>seconds\<close>
  enableMetrics :: bool
  enableLogging :: bool
  maxClients :: size_t
  timeoutMs :: int
  clientLimits :: "(string, size_t \<times> real) fmap"

definition RateLimiterConfig_default :: RateLimiterConfig where
  "RateLimiterConfig_default =
     \<lparr> defaultBucketSize = 100, defaultRefillRate = 10, cleanupInterval = 300,
       enableMetrics = True, enableLogging = False, maxClients = 10000, timeoutMs = 1,
       clientLimits = fmempty \<rparr>"

record Statistics =
  totalRequests :: uint64_t
  acceptedRequests :: uint64_t
  rejectedRequests :: uint64_t
  totalLatency :: real
  activeClients :: size_t

definition Statistics_init :: Statistics where
  "Statistics_init =
     \<lparr> totalRequests = 0, acceptedRequests = 0, rejectedRequests = 0, totalLatency = 0,
       activeClients = 0 \<rparr>"

text \<open>
  The fields \<^verbatim>\<open>bucketSize\<close>, \<^verbatim>\<open>refillRate\<close>, \<^verbatim>\<open>totalRequests\<close> and \<^verbatim>\<open>acceptedRequests\<close> of
  \<^verbatim>\<open>ClientStatistics\<close> carry the prefix \<open>client\<close> here: a record field is a constant of the
  theory, \<open>Statistics\<close> has fields of the same names, and the source also uses
  \<^verbatim>\<open>bucketSize\<close> and \<^verbatim>\<open>refillRate\<close> as parameter names.
\<close>

record ClientStatistics =
  tokensRemaining :: size_t
  clientBucketSize :: size_t
  clientRefillRate :: real
  clientTotalRequests :: uint64_t
  clientAcceptedRequests :: uint64_t
  lastRefill :: time_point

record TokenBucket =
  tokens_m :: real
  bucketSize_m :: size_t
  refillRate_m :: real
  lastRefill_m :: time_point
  totalRequests_m :: uint64_t
  acceptedRequests_m :: uint64_t

record RateLimiter =
  clients_m :: "(string, TokenBucket) fmap"
  config_m :: RateLimiterConfig
  stats_m :: Statistics
  latencyMeasurements_m :: "real list"

section \<open>TokenBucket\<close>

text \<open>
  \<^verbatim>\<open>static_cast<double>(n)\<close> for an unsigned integer \<open>n\<close>, also where the program converts
  implicitly (\<^verbatim>\<open>tokens_(bucketSize)\<close>, \<^verbatim>\<open>tokens_ >= tokensNeeded\<close>, \<^verbatim>\<open>tokens_ -= tokensNeeded\<close>).
  A double has a significand of 53 bits: an integer up to \<open>2\<^sup>5\<^sup>3\<close> converts exactly, a greater
  one is rounded to the nearest multiple of \<open>2\<^sup>e\<close>, where \<open>e\<close> is its bit length minus 53, and
  a tie goes to the even multiple. \<open>round_to_even m e\<close> is that multiple.
\<close>

definition round_to_even :: "nat \<Rightarrow> nat \<Rightarrow> nat" where
  "round_to_even m e =
     (let q = m div 2 ^ e; r = m mod 2 ^ e; half = 2 ^ (e - 1)
      in (if r > half \<or> (r = half \<and> odd q) then q + 1 else q) * 2 ^ e)"

definition to_double :: "64 word \<Rightarrow> real" where
  "to_double n =
     (if unat n \<le> 2 ^ 53 then real (unat n)
      else real (round_to_even (unat n) (floorlog 2 (unat n) - 53)))"

text \<open>
  \<^verbatim>\<open>static_cast<size_t>(x)\<close> for a double \<open>x\<close>: truncation toward zero. When the truncated value
  is negative or \<open>2\<^sup>6\<^sup>4\<close> or more, C++ leaves the conversion undefined; the model reduces the
  truncated value modulo \<open>2\<^sup>6\<^sup>4\<close> there, which gives \<open>2\<^sup>6\<^sup>4 - 10\<close> for \<open>-10\<close> and 0 for \<open>2\<^sup>6\<^sup>4\<close>.
\<close>

definition size_t_of_double :: "real \<Rightarrow> size_t" where
  "size_t_of_double x = word_of_int (if 0 \<le> x then \<lfloor>x\<rfloor> else \<lceil>x\<rceil>)"

definition TokenBucket_new :: "size_t \<Rightarrow> real \<Rightarrow> time_point \<Rightarrow> TokenBucket" where
  "TokenBucket_new bucketSize refillRate now =
     \<lparr> tokens_m = to_double bucketSize, bucketSize_m = bucketSize, refillRate_m = refillRate,
       lastRefill_m = now, totalRequests_m = 0, acceptedRequests_m = 0 \<rparr>"

definition refillTokens :: "TokenBucket \<Rightarrow> time_point \<Rightarrow> TokenBucket" where
  "refillTokens b now =
     (let timePassed = real_of_int (now - lastRefill_m b) / 1000000000 in
      if timePassed > 0 then
        (let tokensToAdd = timePassed * refillRate_m b in
         b\<lparr> tokens_m := min (tokens_m b + tokensToAdd) (to_double (bucketSize_m b)),
            lastRefill_m := now \<rparr>)
      else b)"

definition consume :: "TokenBucket \<Rightarrow> size_t \<Rightarrow> time_point \<Rightarrow> bool \<times> TokenBucket" where
  "consume b tokensNeeded now =
     (let b1 = refillTokens b now;
          b2 = b1\<lparr> totalRequests_m := totalRequests_m b1 + 1 \<rparr> in
      if tokens_m b2 \<ge> to_double tokensNeeded then
        (True, b2\<lparr> tokens_m := tokens_m b2 - to_double tokensNeeded,
                   acceptedRequests_m := acceptedRequests_m b2 + 1 \<rparr>)
      else (False, b2))"

text \<open>
  \<^verbatim>\<open>getStatistics\<close> is \<^verbatim>\<open>const\<close> in the source but casts the constness away to run
  \<^verbatim>\<open>refillTokens\<close>, so it returns the bucket as well.
\<close>

definition TokenBucket_getStatistics ::
  "TokenBucket \<Rightarrow> time_point \<Rightarrow> ClientStatistics \<times> TokenBucket" where
  "TokenBucket_getStatistics b now =
     (let b1 = refillTokens b now in
      (\<lparr> tokensRemaining = size_t_of_double (tokens_m b1),
         clientBucketSize = bucketSize_m b1,
         clientRefillRate = refillRate_m b1,
         clientTotalRequests = totalRequests_m b1,
         clientAcceptedRequests = acceptedRequests_m b1,
         lastRefill = lastRefill_m b1 \<rparr>, b1))"

definition TokenBucket_reset :: "TokenBucket \<Rightarrow> time_point \<Rightarrow> TokenBucket" where
  "TokenBucket_reset b now =
     b\<lparr> tokens_m := to_double (bucketSize_m b), lastRefill_m := now,
        totalRequests_m := 0, acceptedRequests_m := 0 \<rparr>"

definition getLastAccess :: "TokenBucket \<Rightarrow> time_point" where
  "getLastAccess b = lastRefill_m b"

text \<open>A caller that issues one \<^verbatim>\<open>consume(1)\<close> at each of the given clock readings, in order.\<close>

fun consume_each :: "TokenBucket \<Rightarrow> time_point list \<Rightarrow> bool list \<times> TokenBucket" where
  "consume_each b [] = ([], b)"
| "consume_each b (t # ts) =
     (case consume b 1 t of (ok, b') \<Rightarrow>
        (case consume_each b' ts of (oks, b'') \<Rightarrow> (ok # oks, b'')))"

section \<open>Statistics\<close>

definition getAcceptanceRate :: "Statistics \<Rightarrow> real" where
  "getAcceptanceRate st =
     (let total = totalRequests st in
      if total > 0 then (to_double (acceptedRequests st) / to_double total) * 100 else 0)"

definition getRejectionRate :: "Statistics \<Rightarrow> real" where
  "getRejectionRate st =
     (let total = totalRequests st in
      if total > 0 then (to_double (rejectedRequests st) / to_double total) * 100 else 0)"

definition getAverageLatency :: "Statistics \<Rightarrow> real" where
  "getAverageLatency st =
     (let total = totalRequests st in
      if total > 0 then totalLatency st / to_double total else 0)"

section \<open>RateLimiter\<close>

text \<open>
  A C++ constructor either completes or throws. Neither constructor of \<^verbatim>\<open>RateLimiter\<close> has a
  \<^verbatim>\<open>throw\<close> or a check of its arguments: the first copies the configuration, the second
  overwrites two fields of the default configuration, and both then start the cleanup
  thread. \<open>RateLimiter_init\<close> is the object they build.
\<close>

datatype exception = Exception

definition RateLimiter_init :: "RateLimiterConfig \<Rightarrow> RateLimiter" where
  "RateLimiter_init config =
     \<lparr> clients_m = fmempty, config_m = config, stats_m = Statistics_init,
       latencyMeasurements_m = [] \<rparr>"

definition RateLimiter_new :: "RateLimiterConfig \<Rightarrow> exception + RateLimiter" where
  "RateLimiter_new config = Inr (RateLimiter_init config)"

definition RateLimiter_new_sized :: "size_t \<Rightarrow> real \<Rightarrow> exception + RateLimiter" where
  "RateLimiter_new_sized bucketSize refillRate =
     Inr (RateLimiter_init
            (RateLimiterConfig_default\<lparr> defaultBucketSize := bucketSize,
                                        defaultRefillRate := refillRate \<rparr>))"

text \<open>
  \<^verbatim>\<open>getOrCreateBucket\<close> returns a pointer to the bucket that the registry owns, or
  \<^verbatim>\<open>nullptr\<close>. The model returns the bucket the pointer refers to (\<open>None\<close> for \<^verbatim>\<open>nullptr\<close>) and
  the new limiter; a caller that writes through the pointer stores the changed bucket
  under the same client id. \<open>now\<close> is the clock reading of the \<^verbatim>\<open>TokenBucket\<close> constructor.
\<close>

definition getOrCreateBucket ::
  "RateLimiter \<Rightarrow> string \<Rightarrow> time_point \<Rightarrow> TokenBucket option \<times> RateLimiter" where
  "getOrCreateBucket s clientId now =
     (case fmlookup (clients_m s) clientId of
        Some b \<Rightarrow> (Some b, s)
      | None \<Rightarrow>
          if fcard (fmdom (clients_m s)) \<ge> unat (maxClients (config_m s)) then (None, s)
          else
            (let (bucketSize, refillRate) =
                   (case fmlookup (clientLimits (config_m s)) clientId of
                      Some limit \<Rightarrow> (fst limit, snd limit)
                    | None \<Rightarrow> (defaultBucketSize (config_m s), defaultRefillRate (config_m s)));
                 bucket = TokenBucket_new bucketSize refillRate now
             in (Some bucket,
                 s\<lparr> clients_m := fmupd clientId bucket (clients_m s),
                    stats_m := (stats_m s)\<lparr> activeClients := activeClients (stats_m s) + 1 \<rparr> \<rparr>)))"

text \<open>
  \<open>tNew\<close> is the clock reading of a bucket's construction (used when the bucket is created),
  \<open>tNow\<close> the one of \<^verbatim>\<open>refillTokens\<close> inside \<^verbatim>\<open>consume\<close>.
\<close>

definition allowRequestInternal ::
  "RateLimiter \<Rightarrow> string \<Rightarrow> time_point \<Rightarrow> time_point \<Rightarrow> bool \<times> RateLimiter" where
  "allowRequestInternal s clientId tNew tNow =
     (case getOrCreateBucket s clientId tNew of
        (None, s') \<Rightarrow> (False, s')
      | (Some bucket, s') \<Rightarrow>
          (case consume bucket 1 tNow of
             (allowed, bucket') \<Rightarrow>
               (allowed, s'\<lparr> clients_m := fmupd clientId bucket' (clients_m s') \<rparr>)))"

text \<open>
  \<open>start\<close> and \<open>finish\<close> are the two readings of the high-resolution clock; the latency is
  their difference in milliseconds. The log line written when \<^verbatim>\<open>enableLogging\<close> is set goes
  to the console and is not part of the state.
\<close>

definition allowRequest ::
  "RateLimiter \<Rightarrow> string \<Rightarrow> time_point \<Rightarrow> time_point \<Rightarrow> time_point \<Rightarrow> time_point
     \<Rightarrow> bool \<times> RateLimiter" where
  "allowRequest s clientId start tNew tNow finish =
     (case allowRequestInternal s clientId tNew tNow of
        (allowed, s1) \<Rightarrow>
          if enableMetrics (config_m s1) then
            (let st = stats_m s1;
                 st1 = st\<lparr> totalRequests := totalRequests st + 1 \<rparr>;
                 st2 = (if allowed then st1\<lparr> acceptedRequests := acceptedRequests st1 + 1 \<rparr>
                        else st1\<lparr> rejectedRequests := rejectedRequests st1 + 1 \<rparr>);
                 latency = real_of_int (finish - start) / 1000000;
                 pushed = latencyMeasurements_m s1 @ [latency];
                 kept = (if length pushed > 1000 then tl pushed else pushed)
             in (allowed,
                 s1\<lparr> stats_m := st2\<lparr> totalLatency := totalLatency st2 + latency \<rparr>,
                     latencyMeasurements_m := kept \<rparr>))
          else (allowed, s1))"

definition allowRequests ::
  "RateLimiter \<Rightarrow> string \<Rightarrow> size_t \<Rightarrow> time_point \<Rightarrow> time_point \<Rightarrow> bool \<times> RateLimiter" where
  "allowRequests s clientId count tNew tNow =
     (case getOrCreateBucket s clientId tNew of
        (None, s') \<Rightarrow> (False, s')
      | (Some bucket, s') \<Rightarrow>
          (case consume bucket count tNow of
             (allowed, bucket') \<Rightarrow>
               (allowed, s'\<lparr> clients_m := fmupd clientId bucket' (clients_m s') \<rparr>)))"

definition updateClientLimit :: "RateLimiter \<Rightarrow> string \<Rightarrow> size_t \<Rightarrow> real \<Rightarrow> RateLimiter" where
  "updateClientLimit s clientId bucketSize refillRate =
     s\<lparr> config_m := (config_m s)\<lparr> clientLimits :=
                       fmupd clientId (bucketSize, refillRate) (clientLimits (config_m s)) \<rparr>,
        clients_m := fmdrop clientId (clients_m s) \<rparr>"

definition removeClient :: "RateLimiter \<Rightarrow> string \<Rightarrow> RateLimiter" where
  "removeClient s clientId =
     (if clientId |\<in>| fmdom (clients_m s) then
        s\<lparr> clients_m := fmdrop clientId (clients_m s),
           stats_m := (stats_m s)\<lparr> activeClients := activeClients (stats_m s) - 1 \<rparr> \<rparr>
      else s)"

definition getStatistics :: "RateLimiter \<Rightarrow> Statistics" where
  "getStatistics s = stats_m s"

text \<open>
  \<^verbatim>\<open>getClientStatistics\<close> is \<^verbatim>\<open>const\<close>, but the bucket's \<^verbatim>\<open>getStatistics\<close> refills the bucket, so
  the limiter is returned as well.
\<close>

definition getClientStatistics ::
  "RateLimiter \<Rightarrow> string \<Rightarrow> time_point \<Rightarrow> ClientStatistics \<times> RateLimiter" where
  "getClientStatistics s clientId now =
     (case fmlookup (clients_m s) clientId of
        Some b \<Rightarrow>
          (case TokenBucket_getStatistics b now of
             (cs, b') \<Rightarrow> (cs, s\<lparr> clients_m := fmupd clientId b' (clients_m s) \<rparr>))
      | None \<Rightarrow>
          (\<lparr> tokensRemaining = 0,
             clientBucketSize = defaultBucketSize (config_m s),
             clientRefillRate = defaultRefillRate (config_m s),
             clientTotalRequests = 0,
             clientAcceptedRequests = 0,
             lastRefill = now \<rparr>, s))"

text \<open>
  The source returns the ids as a vector in the iteration order of the hash map, which is
  unspecified; the model returns them as a finite set.
\<close>

definition getActiveClients :: "RateLimiter \<Rightarrow> string fset" where
  "getActiveClients s = fmdom (clients_m s)"

text \<open>
  \<^verbatim>\<open>measurements[index]\<close> is a plain read of the sorted copy; C++ leaves a read past the end
  undefined. The index is a position in the container and, like the container's size, a
  natural number: the lambda is called with percentiles between 0 and 100 only, so the
  value it casts lies between 0 and \<^verbatim>\<open>size() - 1\<close>, where \<^verbatim>\<open>static_cast<size_t>\<close> is the floor.
  The member function is \<^verbatim>\<open>const\<close> and works on a copy, so the limiter is not returned.
\<close>

definition getPercentile :: "real list \<Rightarrow> real \<Rightarrow> real" where
  "getPercentile measurements percentile =
     (let index = nat \<lfloor>(percentile / 100) * real (length measurements - 1)\<rfloor>
      in measurements ! index)"

definition getLatencyPercentiles :: "RateLimiter \<Rightarrow> real list" where
  "getLatencyPercentiles s =
     (if latencyMeasurements_m s = [] then [0, 0, 0, 0, 0]
      else
        (let measurements = sort (latencyMeasurements_m s) in
         [getPercentile measurements 50,
          getPercentile measurements 90,
          getPercentile measurements 95,
          getPercentile measurements 99,
          getPercentile measurements (999 / 10)]))"

text \<open>
  The loop of \<^verbatim>\<open>cleanup\<close> visits every entry once and erases the idle ones. The order of the
  visit is the hash map's; the model visits the ids in ascending order.
\<close>

fun cleanup_loop :: "string list \<Rightarrow> time_point \<Rightarrow> RateLimiter \<Rightarrow> RateLimiter" where
  "cleanup_loop [] threshold s = s"
| "cleanup_loop (k # ks) threshold s =
     (case fmlookup (clients_m s) k of
        None \<Rightarrow> cleanup_loop ks threshold s
      | Some b \<Rightarrow>
          if getLastAccess b < threshold then
            cleanup_loop ks threshold
              (s\<lparr> clients_m := fmdrop k (clients_m s),
                  stats_m := (stats_m s)\<lparr> activeClients := activeClients (stats_m s) - 1 \<rparr> \<rparr>)
          else cleanup_loop ks threshold s)"

text \<open>
  \<^verbatim>\<open>now - config_.cleanupInterval\<close> converts the interval from seconds to nanoseconds and
  subtracts, both on signed 64-bit tick counts. C++ leaves a signed overflow undefined; the
  machine wraps, and so does the model.
\<close>

definition int64_wrap :: "int \<Rightarrow> int" where
  "int64_wrap x = sint (word_of_int x :: 64 word)"

definition cleanup_threshold :: "RateLimiterConfig \<Rightarrow> time_point \<Rightarrow> time_point" where
  "cleanup_threshold config now =
     int64_wrap (now - int64_wrap (cleanupInterval config * 1000000000))"

definition cleanup :: "RateLimiter \<Rightarrow> time_point \<Rightarrow> RateLimiter" where
  "cleanup s now =
     (let threshold = cleanup_threshold (config_m s) now
      in cleanup_loop (sorted_list_of_fset (fmdom (clients_m s))) threshold s)"

text \<open>
  Every bucket's \<^verbatim>\<open>reset\<close> reads the clock itself: \<open>nowOf clientId\<close> is the reading taken for
  the bucket of \<open>clientId\<close>.
\<close>

definition reset :: "RateLimiter \<Rightarrow> (string \<Rightarrow> time_point) \<Rightarrow> RateLimiter" where
  "reset s nowOf =
     s\<lparr> clients_m := fmmap_keys (\<lambda>clientId b. TokenBucket_reset b (nowOf clientId)) (clients_m s),
        stats_m := (stats_m s)\<lparr> totalRequests := 0, acceptedRequests := 0,
                                 rejectedRequests := 0, totalLatency := 0 \<rparr>,
        latencyMeasurements_m := [] \<rparr>"

subsection \<open>Sequences of calls\<close>

text \<open>
  The mutating member functions as a datatype of calls, each with the clock readings it
  takes, and the limiter after a sequence of calls.
\<close>

datatype call =
    AllowRequest string time_point time_point time_point time_point
  | AllowRequests string size_t time_point time_point
  | UpdateClientLimit string size_t real
  | RemoveClient string
  | GetClientStatistics string time_point
  | Cleanup time_point
  | Reset "string \<Rightarrow> time_point"

fun perform :: "RateLimiter \<Rightarrow> call \<Rightarrow> RateLimiter" where
  "perform s (AllowRequest clientId start tNew tNow finish) =
     snd (allowRequest s clientId start tNew tNow finish)"
| "perform s (AllowRequests clientId count tNew tNow) =
     snd (allowRequests s clientId count tNew tNow)"
| "perform s (UpdateClientLimit clientId bucketSize refillRate) =
     updateClientLimit s clientId bucketSize refillRate"
| "perform s (RemoveClient clientId) = removeClient s clientId"
| "perform s (GetClientStatistics clientId now) = snd (getClientStatistics s clientId now)"
| "perform s (Cleanup now) = cleanup s now"
| "perform s (Reset nowOf) = reset s nowOf"

definition perform_all :: "RateLimiter \<Rightarrow> call list \<Rightarrow> RateLimiter" where
  "perform_all s calls = foldl perform s calls"

section \<open>Invariants\<close>

text \<open>The token level of a bucket lies between 0 and the bucket size.\<close>

definition tokens_in_range :: "TokenBucket \<Rightarrow> bool" where
  "tokens_in_range b \<longleftrightarrow> 0 \<le> tokens_m b \<and> tokens_m b \<le> real (unat (bucketSize_m b))"

text \<open>The registry holds at most \<^verbatim>\<open>maxClients\<close> entries.\<close>

definition within_cap :: "RateLimiter \<Rightarrow> bool" where
  "within_cap s \<longleftrightarrow> fcard (fmdom (clients_m s)) \<le> unat (maxClients (config_m s))"

section \<open>What the specification says, in its own words\<close>

text \<open>
  Follows the spec's words, not the source: the percentile \<open>p\<close> of a sample buffer is the
  element of the ascending-sorted buffer at rank \<open>floor((p/100) * (count - 1))\<close>, counted
  from zero.
\<close>

definition spec_percentile :: "real list \<Rightarrow> real \<Rightarrow> real" where
  "spec_percentile samples p = sort samples ! nat \<lfloor>(p / 100) * real (length samples - 1)\<rfloor>"

text \<open>
  Follows the spec's words, not the source: a configuration is invalid when the default
  capacity or the default refill rate is zero or negative, or when a per-client override
  has a zero or negative capacity or rate. A capacity is unsigned, so it is never negative.
\<close>

definition spec_invalid_configuration :: "RateLimiterConfig \<Rightarrow> bool" where
  "spec_invalid_configuration cfg \<longleftrightarrow>
     defaultBucketSize cfg = 0 \<or> defaultRefillRate cfg \<le> 0 \<or>
     (\<exists>limit \<in> fmran' (clientLimits cfg). fst limit = 0 \<or> snd limit \<le> 0)"

section \<open>Concrete inputs\<close>

text \<open>
  A limiter for one client whose bucket holds one token that is never refilled, after the
  first request of client \<open>a\<close>; a bucket with 3 of 10 tokens and a refill rate of 2 tokens per
  second; the limiter built with bucket size 10 and refill rate -1; a limiter with five
  latency samples; a clock that reads 9 at every bucket's reset;
  a configuration with a zero capacity and a negative refill rate, as default and as
  override.
\<close>

definition config_one :: RateLimiterConfig where
  "config_one = RateLimiterConfig_default\<lparr> defaultBucketSize := 1, defaultRefillRate := 0, maxClients := 1 \<rparr>"

definition limiter_one :: RateLimiter where
  "limiter_one = perform_all (RateLimiter_init config_one) [AllowRequest ''a'' 0 0 0 0]"

definition bucket_three :: TokenBucket where
  "bucket_three = \<lparr> tokens_m = 3, bucketSize_m = 10, refillRate_m = 2, lastRefill_m = 0,
                     totalRequests_m = 0, acceptedRequests_m = 0 \<rparr>"

definition limiter_negative_rate :: RateLimiter where
  "limiter_negative_rate =
     RateLimiter_init (RateLimiterConfig_default\<lparr> defaultBucketSize := 10,
                                                   defaultRefillRate := - 1 \<rparr>)"

definition limiter_samples :: RateLimiter where
  "limiter_samples = (RateLimiter_init config_one)\<lparr> latencyMeasurements_m := [30, 10, 20, 50, 40] \<rparr>"

definition clock_nine :: "string \<Rightarrow> time_point" where
  "clock_nine clientId = 9"

definition config_invalid :: RateLimiterConfig where
  "config_invalid =
     RateLimiterConfig_default\<lparr> defaultBucketSize := 0, defaultRefillRate := - 1,
                                clientLimits := fmupd ''x'' (0, - 1) fmempty \<rparr>"

section \<open>The token bucket\<close>

lemma refillTokens_fields:
  "totalRequests_m (refillTokens b now) = totalRequests_m b"
  "acceptedRequests_m (refillTokens b now) = acceptedRequests_m b"
  "bucketSize_m (refillTokens b now) = bucketSize_m b"
  "refillRate_m (refillTokens b now) = refillRate_m b"
  by (simp_all add: refillTokens_def Let_def)

lemma refillTokens_rate0:
  assumes "refillRate_m b = 0" "tokens_m b \<le> to_double (bucketSize_m b)"
  shows "tokens_m (refillTokens b now) = tokens_m b"
  using assms by (simp add: refillTokens_def Let_def)

lemma to_double_1: "to_double 1 = 1"
  by (simp add: to_double_def)

lemma to_double_nonneg: "0 \<le> to_double n"
proof (cases "unat n \<le> 2 ^ 53")
  case True
  have "0 \<le> real (unat n)" by (rule of_nat_0_le_iff)
  with True show ?thesis unfolding to_double_def by (simp only: if_True)
next
  case False
  have "0 \<le> real (round_to_even (unat n) (floorlog 2 (unat n) - 53))"
    by (rule of_nat_0_le_iff)
  with False show ?thesis unfolding to_double_def by (simp only: if_False)
qed

lemma to_double_exact: "unat n \<le> 2 ^ 53 \<Longrightarrow> to_double n = real (unat n)"
  unfolding to_double_def by (simp only: if_True)

lemma floorlog_2_eq:
  assumes "2 ^ (w - 1) \<le> x" "x < 2 ^ w"
  shows "floorlog 2 x = w"
proof (rule antisym)
  show "floorlog 2 x \<le> w" using assms(2) by (intro floorlog_leI) simp_all
  show "w \<le> floorlog 2 x" using assms(1) by (intro floorlog_geI) simp_all
qed

text \<open>\<open>2\<^sup>5\<^sup>3 + 1\<close> converts to \<open>2\<^sup>5\<^sup>3\<close>, and \<open>2\<^sup>6\<^sup>4 - 1\<close> to \<open>2\<^sup>6\<^sup>4\<close>.\<close>

lemma to_double_above_exact: "to_double 9007199254740993 = 9007199254740992"
proof -
  have u: "unat (9007199254740993 :: 64 word) = 9007199254740993" by simp
  have f: "floorlog 2 (9007199254740993 :: nat) = 54"
    by (rule floorlog_2_eq) simp_all
  have r: "round_to_even 9007199254740993 1 = 9007199254740992"
    by (simp add: round_to_even_def Let_def)
  show ?thesis
    unfolding to_double_def u f using r by simp
qed

lemma to_double_max: "to_double 18446744073709551615 = 18446744073709551616"
proof -
  have u: "unat (18446744073709551615 :: 64 word) = 18446744073709551615" by simp
  have f: "floorlog 2 (18446744073709551615 :: nat) = 64"
    by (rule floorlog_2_eq) simp_all
  have r: "round_to_even 18446744073709551615 11 = 18446744073709551616"
    by (simp add: round_to_even_def Let_def)
  show ?thesis
    unfolding to_double_def u f using r by simp
qed

lemma consume_1_rate0:
  assumes "refillRate_m b = 0" "tokens_m b = real (Suc k)"
    and "tokens_m b \<le> to_double (bucketSize_m b)"
  shows "fst (consume b 1 t)" and "tokens_m (snd (consume b 1 t)) = real k"
    and "refillRate_m (snd (consume b 1 t)) = 0"
    and "bucketSize_m (snd (consume b 1 t)) = bucketSize_m b"
proof -
  have tok: "tokens_m (refillTokens b t) = real (Suc k)"
    using assms refillTokens_rate0 [of b t] by simp
  show "fst (consume b 1 t)" "tokens_m (snd (consume b 1 t)) = real k"
    "refillRate_m (snd (consume b 1 t)) = 0"
    "bucketSize_m (snd (consume b 1 t)) = bucketSize_m b"
    using tok assms(1) by (simp_all add: consume_def Let_def to_double_1 refillTokens_fields)
qed

lemma consume_each_rate0:
  "refillRate_m b = 0 \<Longrightarrow> tokens_m b = real k \<Longrightarrow> tokens_m b \<le> to_double (bucketSize_m b)
   \<Longrightarrow> length ts = Suc k
   \<Longrightarrow> fst (consume_each b ts) = replicate k True @ [False]"
proof (induction k arbitrary: b ts)
  case 0
  then obtain t where ts: "ts = [t]" by (cases ts) auto
  have "tokens_m (refillTokens b t) = 0"
    using 0 refillTokens_rate0 [of b t] by simp
  then show ?case
    by (simp add: ts consume_def Let_def to_double_1)
next
  case (Suc k)
  then obtain t ts' where ts: "ts = t # ts'" and len: "length ts' = Suc k"
    by (cases ts) auto
  obtain ok b' where c: "consume b 1 t = (ok, b')" by (cases "consume b 1 t")
  have ok: "ok" and b': "tokens_m b' = real k" "refillRate_m b' = 0" "bucketSize_m b' = bucketSize_m b"
    using consume_1_rate0 [OF Suc.prems(1,2,3), of t] c by simp_all
  have "tokens_m b' \<le> to_double (bucketSize_m b')"
    using b' Suc.prems by simp
  from Suc.IH [OF b'(2) b'(1) this len]
  have ih: "fst (consume_each b' ts') = replicate k True @ [False]" .
  obtain oks b'' where ce: "consume_each b' ts' = (oks, b'')" by (cases "consume_each b' ts'")
  show ?case using c ok ih by (simp add: ts ce)
qed

lemma consume_steps:
  "totalRequests_m (snd (consume b n now)) = totalRequests_m b + 1"
  "fst (consume b n now) \<longleftrightarrow> to_double n \<le> tokens_m (refillTokens b now)"
  "fst (consume b n now) \<Longrightarrow>
     tokens_m (snd (consume b n now)) = tokens_m (refillTokens b now) - to_double n \<and>
     acceptedRequests_m (snd (consume b n now)) = acceptedRequests_m b + 1"
  "\<not> fst (consume b n now) \<Longrightarrow>
     tokens_m (snd (consume b n now)) = tokens_m (refillTokens b now) \<and>
     acceptedRequests_m (snd (consume b n now)) = acceptedRequests_m b"
  by (auto simp: consume_def Let_def refillTokens_fields split: if_splits)

text \<open>
  Claim C1 as stated fails above \<open>2\<^sup>5\<^sup>3\<close>, where the program compares and subtracts the
  request rounded to a double and starts from the capacity rounded to a double. A bucket
  with \<open>2\<^sup>5\<^sup>3\<close> tokens accepts \<^verbatim>\<open>consume(2^53 + 1)\<close>, although it holds fewer tokens than
  requested. A bucket of capacity \<open>C = 2\<^sup>5\<^sup>3 + 1\<close> and refill rate 0 starts with \<open>2\<^sup>5\<^sup>3\<close> tokens,
  so that of \<open>C\<close> calls \<^verbatim>\<open>consume(1)\<close> the last one is rejected.
\<close>

theorem consume_verdict_counterexample:
  "tokens_m (TokenBucket_new 9007199254740992 0 0) < real (unat (9007199254740993 :: 64 word)) \<and>
   fst (consume (TokenBucket_new 9007199254740992 0 0) 9007199254740993 0) \<and>
   length (replicate 9007199254740993 (0 :: int)) = unat (9007199254740993 :: 64 word) \<and>
   \<not> last (fst (consume_each (TokenBucket_new 9007199254740993 0 0)
                   (replicate 9007199254740993 0)))"
proof -
  have t: "tokens_m (TokenBucket_new 9007199254740992 0 0) = 9007199254740992"
    by (simp add: TokenBucket_new_def to_double_def)
  have a: "fst (consume (TokenBucket_new 9007199254740992 0 0) 9007199254740993 0)"
    by (simp add: consume_def refillTokens_def Let_def to_double_above_exact t)
       (simp add: TokenBucket_new_def)
  let ?b = "TokenBucket_new 9007199254740993 0 0"
  let ?ts = "replicate 9007199254740993 (0 :: int)"
  have k: "tokens_m ?b = real (9007199254740992 :: nat)"
    by (simp add: TokenBucket_new_def to_double_above_exact)
  have len: "length ?ts = Suc 9007199254740992" by simp
  have "fst (consume_each ?b ?ts) = replicate 9007199254740992 True @ [False]"
    by (rule consume_each_rate0 [OF _ k _ len]) (simp_all add: TokenBucket_new_def)
  then have "last (fst (consume_each ?b ?ts)) = last (replicate 9007199254740992 True @ [False])"
    by (rule arg_cong)
  then have l: "\<not> last (fst (consume_each ?b ?ts))" by simp
  show ?thesis using t a l by simp
qed

text \<open>
  Claim C1, amended. A call \<^verbatim>\<open>consume(n)\<close> first runs the replenishment pass, then adds exactly
  1 to \<^verbatim>\<open>totalRequests_\<close>. For \<open>n\<close> up to \<open>2\<^sup>5\<^sup>3\<close> it accepts exactly when the replenished token
  level is at least \<open>n\<close>. An accepted call adds 1 to \<^verbatim>\<open>acceptedRequests_\<close> and, when the
  replenished token level is at most \<open>2\<^sup>5\<^sup>3\<close>, takes \<open>n\<close> tokens; a rejected call leaves the
  replenished token level and \<^verbatim>\<open>acceptedRequests_\<close> as they are. A fresh bucket of capacity
  \<open>C\<close> up to \<open>2\<^sup>5\<^sup>3\<close> and refill rate 0 accepts \<open>C\<close> calls \<^verbatim>\<open>consume(1)\<close> and rejects the next one,
  whatever the clock readings of the calls are. Up to \<open>2\<^sup>5\<^sup>3\<close> the integers are doubles and the
  subtraction is exact; above, the program rounds, and the theorem says nothing.
\<close>

theorem consume_verdict:
  "totalRequests_m (snd (consume b n now)) = totalRequests_m b + 1 \<and>
   (unat n \<le> 2 ^ 53 \<longrightarrow>
      (fst (consume b n now) \<longleftrightarrow> real (unat n) \<le> tokens_m (refillTokens b now)) \<and>
      (fst (consume b n now) \<longrightarrow>
         acceptedRequests_m (snd (consume b n now)) = acceptedRequests_m b + 1 \<and>
         (tokens_m (refillTokens b now) \<le> 2 ^ 53 \<longrightarrow>
            tokens_m (snd (consume b n now)) = tokens_m (refillTokens b now) - real (unat n))) \<and>
      (\<not> fst (consume b n now) \<longrightarrow>
         tokens_m (snd (consume b n now)) = tokens_m (refillTokens b now) \<and>
         acceptedRequests_m (snd (consume b n now)) = acceptedRequests_m b)) \<and>
   (unat C \<le> 2 ^ 53 \<and> length ts = Suc (unat C) \<longrightarrow>
      fst (consume_each (TokenBucket_new C 0 t0) ts) = replicate (unat C) True @ [False])"
proof -
  have run: "fst (consume_each (TokenBucket_new C 0 t0) ts) = replicate (unat C) True @ [False]"
    if "unat C \<le> 2 ^ 53" "length ts = Suc (unat C)"
  proof (rule consume_each_rate0)
    show "refillRate_m (TokenBucket_new C 0 t0) = 0" by (simp add: TokenBucket_new_def)
    show "tokens_m (TokenBucket_new C 0 t0) = real (unat C)"
      using to_double_exact [OF that(1)] by (simp add: TokenBucket_new_def)
    show "tokens_m (TokenBucket_new C 0 t0) \<le> to_double (bucketSize_m (TokenBucket_new C 0 t0))"
      by (simp add: TokenBucket_new_def)
    show "length ts = Suc (unat C)" by (rule that(2))
  qed
  have step: "(fst (consume b n now) \<longleftrightarrow> real (unat n) \<le> tokens_m (refillTokens b now)) \<and>
      (fst (consume b n now) \<longrightarrow>
         acceptedRequests_m (snd (consume b n now)) = acceptedRequests_m b + 1 \<and>
         (tokens_m (refillTokens b now) \<le> 2 ^ 53 \<longrightarrow>
            tokens_m (snd (consume b n now)) = tokens_m (refillTokens b now) - real (unat n))) \<and>
      (\<not> fst (consume b n now) \<longrightarrow>
         tokens_m (snd (consume b n now)) = tokens_m (refillTokens b now) \<and>
         acceptedRequests_m (snd (consume b n now)) = acceptedRequests_m b)"
    if "unat n \<le> 2 ^ 53"
    using consume_steps [of b n now] unfolding to_double_exact [OF that] by blast
  show ?thesis
    using consume_steps(1) [of b n now] run step by blast
qed

text \<open>
  The theorem at a bucket of capacity 2: one token is granted, three are refused, and of
  three single-token calls the third is refused.
\<close>

theorem consume_verdict_witness:
  "unat (1 :: 64 word) \<le> 2 ^ 53 \<and> unat (3 :: 64 word) \<le> 2 ^ 53 \<and>
   tokens_m (refillTokens (TokenBucket_new 2 0 0) 5) \<le> 2 ^ 53 \<and>
   fst (consume (TokenBucket_new 2 0 0) 1 5) \<and>
   tokens_m (snd (consume (TokenBucket_new 2 0 0) 1 5)) = 1 \<and>
   acceptedRequests_m (snd (consume (TokenBucket_new 2 0 0) 1 5)) = 1 \<and>
   \<not> fst (consume (TokenBucket_new 2 0 0) 3 5) \<and>
   tokens_m (snd (consume (TokenBucket_new 2 0 0) 3 5)) = 2 \<and>
   unat (2 :: 64 word) \<le> 2 ^ 53 \<and>
   length [1, 1, 7 :: int] = Suc (unat (2 :: 64 word)) \<and>
   fst (consume_each (TokenBucket_new 2 0 0) [1, 1, 7]) = [True, True, False]"
proof -
  have b: "unat (1 :: 64 word) \<le> 2 ^ 53" "unat (3 :: 64 word) \<le> 2 ^ 53"
    "unat (2 :: 64 word) \<le> 2 ^ 53"
    by simp_all
  have r: "tokens_m (refillTokens (TokenBucket_new 2 0 0) 5) = 2"
    by (simp add: refillTokens_def TokenBucket_new_def to_double_def Let_def)
  have a: "fst (consume (TokenBucket_new 2 0 0) 1 5)"
    using consume_verdict [of "TokenBucket_new 2 0 0" 1 5 2 "[1,1,7]" 0] r b
    by simp
  have n: "\<not> fst (consume (TokenBucket_new 2 0 0) 3 5)"
    using consume_verdict [of "TokenBucket_new 2 0 0" 3 5 2 "[1,1,7]" 0] r b
    by simp
  have l: "length [1, 1, 7 :: int] = Suc (unat (2 :: 64 word))" by simp
  have u: "unat (2 :: 64 word) = 2" by simp
  have rep: "replicate (unat (2 :: 64 word)) True = [True, True]"
    unfolding u by (simp add: numeral_2_eq_2)
  show ?thesis
    using consume_verdict [of "TokenBucket_new 2 0 0" 1 5 2 "[1,1,7]" 0]
          consume_verdict [of "TokenBucket_new 2 0 0" 3 5 2 "[1,1,7]" 0] a n l r rep b
    by (simp add: TokenBucket_new_def)
qed

lemma refillTokens_in_range:
  assumes "0 \<le> refillRate_m b" "to_double (bucketSize_m b) = real (unat (bucketSize_m b))" "tokens_in_range b"
  shows "tokens_in_range (refillTokens b now)"
proof (cases "lastRefill_m b < now")
  case True
  then have "0 \<le> real_of_int (now - lastRefill_m b) / 1000000000 * refillRate_m b"
    using assms(1) by simp
  then show ?thesis
    using assms(3) True assms(2)
    by (simp add: refillTokens_def Let_def tokens_in_range_def min_def)
next
  case False
  then show ?thesis using assms(3) by (simp add: refillTokens_def Let_def)
qed

lemma refillTokens_skip: "now \<le> lastRefill_m b \<Longrightarrow> refillTokens b now = b"
  by (simp add: refillTokens_def Let_def)

lemma refillTokens_add:
  "lastRefill_m b < now \<Longrightarrow>
   tokens_m (refillTokens b now) =
     min (tokens_m b + real_of_int (now - lastRefill_m b) / 1000000000 * refillRate_m b)
         (to_double (bucketSize_m b)) \<and> lastRefill_m (refillTokens b now) = now"
  by (simp add: refillTokens_def Let_def)

lemma consume_in_range:
  assumes "0 \<le> refillRate_m b" "to_double (bucketSize_m b) = real (unat (bucketSize_m b))" "tokens_in_range b"
  shows "tokens_in_range (snd (consume b n now))"
  using refillTokens_in_range [OF assms, of now] to_double_nonneg [of n]
  by (simp add: consume_def Let_def tokens_in_range_def)

lemma new_in_range:
  "to_double c = real (unat c) \<Longrightarrow> tokens_in_range (TokenBucket_new c r now)"
  using to_double_nonneg [of c] by (simp add: TokenBucket_new_def tokens_in_range_def)

lemma reset_in_range:
  "to_double (bucketSize_m b) = real (unat (bucketSize_m b)) \<Longrightarrow>
   tokens_in_range (TokenBucket_reset b now)"
  using to_double_nonneg [of "bucketSize_m b"]
  by (simp add: TokenBucket_reset_def tokens_in_range_def)

lemma limiter_negative_rate_request:
  "fmlookup (clients_m (perform limiter_negative_rate
                          (AllowRequest ''x'' 0 0 20000000000 20000000000))) ''x''
     = Some \<lparr> tokens_m = - 10, bucketSize_m = 10, refillRate_m = - 1,
              lastRefill_m = 20000000000, totalRequests_m = 1, acceptedRequests_m = 0 \<rparr>"
  by (simp add: limiter_negative_rate_def allowRequest_def allowRequestInternal_def
        getOrCreateBucket_def RateLimiter_init_def RateLimiterConfig_default_def
        Statistics_init_def TokenBucket_new_def consume_def refillTokens_def to_double_def
        Let_def fcard_fempty)

text \<open>
  Claim C2 as stated fails. The two-argument constructor takes a refill rate of -1 as it
  takes any other; the first request of a client, 20 seconds after its bucket of 10 tokens
  was built, leaves the bucket with -10 tokens: the replenishment pass multiplies the
  elapsed time by the refill rate as it is. And a new bucket of capacity \<open>2\<^sup>6\<^sup>4 - 1\<close> holds
  \<open>2\<^sup>6\<^sup>4\<close> tokens, more than its capacity, since the capacity is rounded when it is converted.
\<close>

theorem tokens_invariant_counterexample:
  "RateLimiter_new_sized 10 (- 1) = Inr limiter_negative_rate \<and>
   map_option tokens_m
     (fmlookup (clients_m (perform limiter_negative_rate
                             (AllowRequest ''x'' 0 0 20000000000 20000000000))) ''x'')
     = Some (- 10) \<and>
   real (unat (18446744073709551615 :: 64 word))
     < tokens_m (TokenBucket_new 18446744073709551615 1 0)"
proof -
  have c: "RateLimiter_new_sized 10 (- 1) = Inr limiter_negative_rate"
    by (simp add: RateLimiter_new_sized_def limiter_negative_rate_def)
  have t: "tokens_m (TokenBucket_new 18446744073709551615 1 0) = 18446744073709551616"
    by (simp add: TokenBucket_new_def to_double_max)
  show ?thesis
    unfolding limiter_negative_rate_request t using c by simp
qed

text \<open>
  Claim C2, amended. For a bucket whose refill rate is not negative and whose capacity
  converts to a double exactly, as every capacity up to \<open>2\<^sup>5\<^sup>3\<close> does, \<open>0 \<le> tokens \<le> capacity\<close>
  holds of a new bucket and is kept by \<^verbatim>\<open>consume\<close>, by \<^verbatim>\<open>getStatistics\<close> and by \<^verbatim>\<open>reset\<close>, none
  of which changes the refill rate or the capacity. The replenishment pass does nothing when no time has passed or the clock
  reading lies before the last refill; otherwise it adds the elapsed seconds times the
  refill rate, clamps the sum to the capacity, and never lowers the token level.
\<close>

theorem tokens_invariant:
  assumes "0 \<le> refillRate_m b" and "to_double (bucketSize_m b) = real (unat (bucketSize_m b))" and "tokens_in_range b"
  shows "tokens_in_range (snd (consume b n now)) \<and>
         tokens_in_range (snd (TokenBucket_getStatistics b now)) \<and>
         tokens_in_range (TokenBucket_reset b now) \<and>
         (to_double c = real (unat c) \<longrightarrow> tokens_in_range (TokenBucket_new c r now)) \<and>
         (unat c \<le> 2 ^ 53 \<longrightarrow> to_double c = real (unat c)) \<and>
         refillRate_m (snd (consume b n now)) = refillRate_m b \<and>
         refillRate_m (snd (TokenBucket_getStatistics b now)) = refillRate_m b \<and>
         refillRate_m (TokenBucket_reset b now) = refillRate_m b \<and>
         bucketSize_m (snd (consume b n now)) = bucketSize_m b \<and>
         bucketSize_m (snd (TokenBucket_getStatistics b now)) = bucketSize_m b \<and>
         bucketSize_m (TokenBucket_reset b now) = bucketSize_m b \<and>
         (now \<le> lastRefill_m b \<longrightarrow> refillTokens b now = b) \<and>
         (lastRefill_m b < now \<longrightarrow>
            tokens_m (refillTokens b now) =
              min (tokens_m b + real_of_int (now - lastRefill_m b) / 1000000000 * refillRate_m b)
                  (real (unat (bucketSize_m b))) \<and>
            tokens_m b \<le> tokens_m (refillTokens b now))"
proof -
  note cap = assms(2)
  have mono: "tokens_m b \<le> tokens_m (refillTokens b now)" if "lastRefill_m b < now"
  proof -
    have "0 \<le> real_of_int (now - lastRefill_m b) / 1000000000 * refillRate_m b"
      using assms(1) that by simp
    then show ?thesis
      using assms(3) that cap by (simp add: refillTokens_def Let_def tokens_in_range_def)
  qed
  have add: "tokens_m (refillTokens b now) =
              min (tokens_m b + real_of_int (now - lastRefill_m b) / 1000000000 * refillRate_m b)
                  (real (unat (bucketSize_m b)))" if "lastRefill_m b < now"
    using refillTokens_add [OF that] cap by simp
  have "tokens_in_range (snd (TokenBucket_getStatistics b now))"
    using refillTokens_in_range [OF assms, of now]
    by (simp add: TokenBucket_getStatistics_def Let_def)
  moreover have "refillRate_m (snd (consume b n now)) = refillRate_m b"
    by (simp add: consume_def Let_def refillTokens_fields)
  moreover have "refillRate_m (snd (TokenBucket_getStatistics b now)) = refillRate_m b"
    by (simp add: TokenBucket_getStatistics_def Let_def refillTokens_fields)
  moreover have "refillRate_m (TokenBucket_reset b now) = refillRate_m b"
    by (simp add: TokenBucket_reset_def)
  moreover have "bucketSize_m (snd (consume b n now)) = bucketSize_m b"
    by (simp add: consume_def Let_def refillTokens_fields)
  moreover have "bucketSize_m (snd (TokenBucket_getStatistics b now)) = bucketSize_m b"
    by (simp add: TokenBucket_getStatistics_def Let_def refillTokens_fields)
  moreover have "bucketSize_m (TokenBucket_reset b now) = bucketSize_m b"
    by (simp add: TokenBucket_reset_def)
  ultimately show ?thesis
    using consume_in_range [OF assms, of n now] reset_in_range [OF assms(2), of now]
      new_in_range [of c r now] refillTokens_skip [of now b] add mono to_double_exact [of c]
    by blast
qed

text \<open>The theorem at a bucket with 3 of 10 tokens and 2 tokens per second, two seconds
  after its last refill and five ticks before it.\<close>

theorem tokens_invariant_witness:
  "0 \<le> refillRate_m bucket_three \<and>
   to_double (bucketSize_m bucket_three) = real (unat (bucketSize_m bucket_three)) \<and>
   tokens_in_range bucket_three \<and>
   tokens_in_range (snd (consume bucket_three 4 2000000000)) \<and>
   unat (7 :: 64 word) \<le> 2 ^ 53 \<and> to_double 7 = real (unat (7 :: 64 word)) \<and>
   tokens_in_range (TokenBucket_new 7 1 2000000000) \<and>
   lastRefill_m bucket_three < 2000000000 \<and>
   tokens_m (refillTokens bucket_three 2000000000) = 7 \<and>
   - 5 \<le> lastRefill_m bucket_three \<and>
   refillTokens bucket_three (- 5) = bucket_three"
proof -
  have h1: "0 \<le> refillRate_m bucket_three" by (simp add: bucket_three_def)
  have h2: "to_double (bucketSize_m bucket_three) = real (unat (bucketSize_m bucket_three))"
    by (simp add: bucket_three_def to_double_def)
  have h3: "tokens_in_range bucket_three"
    by (simp add: bucket_three_def tokens_in_range_def)
  have h4: "unat (7 :: 64 word) \<le> 2 ^ 53" by simp
  have l: "lastRefill_m bucket_three < 2000000000" "- 5 \<le> lastRefill_m bucket_three"
    by (simp_all add: bucket_three_def)
  have v: "min (tokens_m bucket_three
              + real_of_int (2000000000 - lastRefill_m bucket_three) / 1000000000
                * refillRate_m bucket_three)
             (real (unat (bucketSize_m bucket_three))) = 7"
    by (simp add: bucket_three_def)
  show ?thesis
    using tokens_invariant [OF h1 h2 h3, of 4 2000000000 7 1]
          tokens_invariant [OF h1 h2 h3, of 4 "- 5" 7 1] h1 h2 h3 h4 l v
    by simp
qed

section \<open>The registry\<close>

lemma limiter_one_eq:
  "limiter_one =
     \<lparr> clients_m = fmupd ''a'' \<lparr> tokens_m = 0, bucketSize_m = 1, refillRate_m = 0, lastRefill_m = 0,
                                totalRequests_m = 1, acceptedRequests_m = 1 \<rparr> fmempty,
       config_m = config_one,
       stats_m = \<lparr> totalRequests = 1, acceptedRequests = 1, rejectedRequests = 0,
                   totalLatency = 0, activeClients = 1 \<rparr>,
       latencyMeasurements_m = [0] \<rparr>"
  by (simp add: limiter_one_def perform_all_def allowRequest_def allowRequestInternal_def
        getOrCreateBucket_def RateLimiter_init_def config_one_def RateLimiterConfig_default_def
        Statistics_init_def TokenBucket_new_def consume_def refillTokens_def to_double_def
        Let_def fcard_fempty)

lemma getOrCreateBucket_existing:
  "fmlookup (clients_m s) clientId = Some b \<Longrightarrow> getOrCreateBucket s clientId now = (Some b, s)"
  by (simp add: getOrCreateBucket_def)

lemma getOrCreateBucket_full:
  "fmlookup (clients_m s) clientId = None \<Longrightarrow>
   unat (maxClients (config_m s)) \<le> fcard (fmdom (clients_m s)) \<Longrightarrow>
   getOrCreateBucket s clientId now = (None, s)"
  by (simp add: getOrCreateBucket_def)

lemma getOrCreateBucket_create:
  "fmlookup (clients_m s) clientId = None \<Longrightarrow>
   fcard (fmdom (clients_m s)) < unat (maxClients (config_m s)) \<Longrightarrow>
   getOrCreateBucket s clientId now =
     (let bucket =
        (case fmlookup (clientLimits (config_m s)) clientId of
           Some limit \<Rightarrow> TokenBucket_new (fst limit) (snd limit) now
         | None \<Rightarrow> TokenBucket_new (defaultBucketSize (config_m s))
                     (defaultRefillRate (config_m s)) now)
      in (Some bucket,
          s\<lparr> clients_m := fmupd clientId bucket (clients_m s),
             stats_m := (stats_m s)\<lparr> activeClients := activeClients (stats_m s) + 1 \<rparr> \<rparr>))"
  by (simp add: getOrCreateBucket_def Let_def split: option.splits)

lemma getOrCreateBucket_None_iff:
  "fst (getOrCreateBucket s clientId now) = None \<longleftrightarrow>
     fmlookup (clients_m s) clientId = None \<and>
     unat (maxClients (config_m s)) \<le> fcard (fmdom (clients_m s))"
  by (auto simp: getOrCreateBucket_def Let_def split: option.splits prod.splits)

lemma getOrCreateBucket_stored:
  "getOrCreateBucket s clientId now = (Some b, s') \<Longrightarrow> fmlookup (clients_m s') clientId = Some b"
  by (auto simp: getOrCreateBucket_def Let_def split: option.splits prod.splits if_splits)

lemma getOrCreateBucket_config:
  "config_m (snd (getOrCreateBucket s clientId now)) = config_m s"
  by (auto simp: getOrCreateBucket_def Let_def split: option.splits prod.splits)

lemma getOrCreateBucket_within_cap:
  "within_cap s \<Longrightarrow> within_cap (snd (getOrCreateBucket s clientId now))"
proof (cases "fmlookup (clients_m s) clientId")
  case (Some b)
  then show "within_cap s \<Longrightarrow> ?thesis" by (simp add: getOrCreateBucket_existing)
next
  case None
  assume w: "within_cap s"
  show ?thesis
  proof (cases "fcard (fmdom (clients_m s)) < unat (maxClients (config_m s))")
    case True
    have "clientId |\<notin>| fmdom (clients_m s)" using None by (simp add: fmdom_notI)
    then show ?thesis
      using True None
      by (simp add: getOrCreateBucket_create Let_def within_cap_def fcard_finsert_disjoint)
  next
    case False
    then show ?thesis using None w by (simp add: getOrCreateBucket_full)
  qed
qed

lemma fmdom_fmupd_present:
  "fmlookup m k = Some v \<Longrightarrow> fmdom (fmupd k v' m) = fmdom m"
  by (auto simp: fmlookup_dom_iff)

lemma write_back_within_cap:
  assumes "getOrCreateBucket s clientId tNew = (Some b, s')" "within_cap s"
  shows "within_cap (s'\<lparr> clients_m := fmupd clientId b' (clients_m s') \<rparr>)"
proof -
  have "within_cap s'" using getOrCreateBucket_within_cap [OF assms(2), of clientId tNew] assms(1) by simp
  moreover have "fmdom (fmupd clientId b' (clients_m s')) = fmdom (clients_m s')"
    using getOrCreateBucket_stored [OF assms(1)] by (rule fmdom_fmupd_present)
  ultimately show ?thesis by (simp add: within_cap_def)
qed

lemma allowRequestInternal_within_cap:
  assumes "within_cap s"
  shows "within_cap (snd (allowRequestInternal s clientId tNew tNow))"
proof (cases "getOrCreateBucket s clientId tNew")
  case (Pair ob s')
  show ?thesis
  proof (cases ob)
    case None
    then show ?thesis
      using Pair getOrCreateBucket_within_cap [OF assms, of clientId tNew]
      by (simp add: allowRequestInternal_def)
  next
    case (Some b)
    obtain ok b' where c: "consume b 1 tNow = (ok, b')" by (cases "consume b 1 tNow")
    show ?thesis
      using write_back_within_cap [OF _ assms, of clientId tNew b s' b'] Pair Some c
      by (simp add: allowRequestInternal_def)
  qed
qed

lemma allowRequest_within_cap:
  assumes "within_cap s"
  shows "within_cap (snd (allowRequest s clientId start tNew tNow finish))"
proof -
  obtain ok s1 where i: "allowRequestInternal s clientId tNew tNow = (ok, s1)"
    by (cases "allowRequestInternal s clientId tNew tNow")
  have "within_cap s1" using allowRequestInternal_within_cap [OF assms, of clientId tNew tNow] i by simp
  then show ?thesis
    by (simp add: allowRequest_def i Let_def within_cap_def)
qed

lemma allowRequests_within_cap:
  assumes "within_cap s"
  shows "within_cap (snd (allowRequests s clientId n tNew tNow))"
proof (cases "getOrCreateBucket s clientId tNew")
  case (Pair ob s')
  show ?thesis
  proof (cases ob)
    case None
    then show ?thesis
      using Pair getOrCreateBucket_within_cap [OF assms, of clientId tNew]
      by (simp add: allowRequests_def)
  next
    case (Some b)
    obtain ok b' where c: "consume b n tNow = (ok, b')" by (cases "consume b n tNow")
    show ?thesis
      using write_back_within_cap [OF _ assms, of clientId tNew b s' b'] Pair Some c
      by (simp add: allowRequests_def)
  qed
qed

lemma fcard_fmdrop_le: "fcard (fmdom (fmdrop k m)) \<le> fcard (fmdom m)"
  by (simp add: fcard_fminus1_le)

lemma updateClientLimit_within_cap:
  "within_cap s \<Longrightarrow> within_cap (updateClientLimit s clientId c r)"
  using fcard_fmdrop_le [of clientId "clients_m s"]
  by (simp add: updateClientLimit_def within_cap_def)

lemma removeClient_within_cap:
  assumes "within_cap s"
  shows "within_cap (removeClient s clientId)"
proof -
  have "fcard (fmdom (clients_m (removeClient s clientId))) \<le> fcard (fmdom (clients_m s))"
    using fcard_fmdrop_le [of clientId "clients_m s"] by (simp add: removeClient_def)
  moreover have "config_m (removeClient s clientId) = config_m s"
    by (simp add: removeClient_def)
  ultimately show ?thesis using assms unfolding within_cap_def by simp
qed

lemma getClientStatistics_within_cap:
  "within_cap s \<Longrightarrow> within_cap (snd (getClientStatistics s clientId now))"
  by (auto simp: getClientStatistics_def within_cap_def fmdomI finsert_absorb
           split: option.splits prod.splits)

lemma cleanup_loop_within_cap:
  "within_cap s \<Longrightarrow> within_cap (cleanup_loop ks threshold s)"
proof (induction ks arbitrary: s)
  case Nil
  then show ?case by simp
next
  case (Cons k ks)
  have "within_cap (s\<lparr> clients_m := fmdrop k (clients_m s),
                  stats_m := (stats_m s)\<lparr> activeClients := activeClients (stats_m s) - 1 \<rparr> \<rparr>)"
    using Cons.prems fcard_fmdrop_le [of k "clients_m s"] by (simp add: within_cap_def)
  then show ?case
    using Cons by (simp split: option.splits)
qed

lemma cleanup_within_cap: "within_cap s \<Longrightarrow> within_cap (cleanup s now)"
  by (simp add: cleanup_def Let_def cleanup_loop_within_cap)

lemma reset_within_cap: "within_cap s \<Longrightarrow> within_cap (reset s nowOf)"
  by (simp add: reset_def within_cap_def)

lemma perform_within_cap: "within_cap s \<Longrightarrow> within_cap (perform s c)"
  by (cases c)
     (simp_all add: allowRequest_within_cap allowRequests_within_cap updateClientLimit_within_cap
        removeClient_within_cap getClientStatistics_within_cap cleanup_within_cap reset_within_cap)

lemma perform_all_within_cap: "within_cap s \<Longrightarrow> within_cap (perform_all s calls)"
  unfolding perform_all_def by (induction calls arbitrary: s) (simp_all add: perform_within_cap)

lemma init_within_cap: "within_cap (RateLimiter_init cfg)"
  by (simp add: within_cap_def RateLimiter_init_def fcard_fempty)

lemma maxClients_getOrCreateBucket:
  "maxClients (config_m (snd (getOrCreateBucket s clientId now))) = maxClients (config_m s)"
  by (simp add: getOrCreateBucket_config)

lemma maxClients_perform: "maxClients (config_m (perform s c)) = maxClients (config_m s)"
proof (cases c)
  case (AllowRequest clientId start tNew tNow finish)
  then show ?thesis
    by (auto simp: allowRequest_def allowRequestInternal_def Let_def getOrCreateBucket_def
             split: prod.splits option.splits if_splits)
next
  case (AllowRequests clientId n tNew tNow)
  then show ?thesis
    by (auto simp: allowRequests_def Let_def getOrCreateBucket_def
             split: prod.splits option.splits if_splits)
next
  case (Cleanup now)
  have "config_m (cleanup_loop ks t s') = config_m s'" for ks t s'
    by (induction ks arbitrary: s') (simp_all split: option.splits)
  then show ?thesis using Cleanup by (simp add: cleanup_def Let_def)
qed (auto simp: updateClientLimit_def removeClient_def getClientStatistics_def reset_def
          split: option.splits prod.splits)

lemma maxClients_perform_all:
  "maxClients (config_m (perform_all s calls)) = maxClients (config_m s)"
  unfolding perform_all_def by (induction calls arbitrary: s) (simp_all add: maxClients_perform)

text \<open>
  Claim C3. After any sequence of calls on a new limiter the registry holds at most
  \<^verbatim>\<open>maxClients\<close> entries. When the registry holds \<^verbatim>\<open>maxClients\<close> entries or more,
  \<^verbatim>\<open>getOrCreateBucket\<close> for an id without an entry returns no bucket and leaves the limiter
  as it is: nothing is created and nothing is evicted. For an id with an entry it returns
  that entry and leaves the limiter as it is, whatever the size of the registry.
\<close>

theorem registry_cap:
  "fcard (fmdom (clients_m (perform_all (RateLimiter_init cfg) calls))) \<le> unat (maxClients cfg) \<and>
   (fmlookup (clients_m s) clientId = None \<and>
    unat (maxClients (config_m s)) \<le> fcard (fmdom (clients_m s)) \<longrightarrow>
      getOrCreateBucket s clientId now = (None, s)) \<and>
   (fmlookup (clients_m s) clientId = Some b \<longrightarrow>
      getOrCreateBucket s clientId now = (Some b, s))"
proof -
  have "within_cap (perform_all (RateLimiter_init cfg) calls)"
    by (rule perform_all_within_cap) (rule init_within_cap)
  then have "fcard (fmdom (clients_m (perform_all (RateLimiter_init cfg) calls))) \<le> unat (maxClients cfg)"
    by (simp add: within_cap_def maxClients_perform_all RateLimiter_init_def)
  then show ?thesis
    using getOrCreateBucket_full [of s clientId now] getOrCreateBucket_existing [of s clientId b now]
    by blast
qed

text \<open>The theorem at the one-client limiter: client \<open>b\<close> is refused, client \<open>a\<close> is found.\<close>

theorem registry_cap_witness:
  "fmlookup (clients_m limiter_one) ''b'' = None \<and>
   unat (maxClients (config_m limiter_one)) \<le> fcard (fmdom (clients_m limiter_one)) \<and>
   getOrCreateBucket limiter_one ''b'' 7 = (None, limiter_one) \<and>
   fmlookup (clients_m limiter_one) ''a'' =
     Some \<lparr> tokens_m = 0, bucketSize_m = 1, refillRate_m = 0, lastRefill_m = 0,
            totalRequests_m = 1, acceptedRequests_m = 1 \<rparr> \<and>
   fst (getOrCreateBucket limiter_one ''a'' 7) =
     Some \<lparr> tokens_m = 0, bucketSize_m = 1, refillRate_m = 0, lastRefill_m = 0,
            totalRequests_m = 1, acceptedRequests_m = 1 \<rparr> \<and>
   snd (getOrCreateBucket limiter_one ''a'' 7) = limiter_one"
proof -
  have a: "fmlookup (clients_m limiter_one) ''b'' = None"
    by (simp add: limiter_one_eq)
  have b: "unat (maxClients (config_m limiter_one)) \<le> fcard (fmdom (clients_m limiter_one))"
    by (simp add: limiter_one_eq config_one_def fcard_finsert_disjoint fcard_fempty)
  have c: "fmlookup (clients_m limiter_one) ''a'' =
     Some \<lparr> tokens_m = 0, bucketSize_m = 1, refillRate_m = 0, lastRefill_m = 0,
            totalRequests_m = 1, acceptedRequests_m = 1 \<rparr>"
    by (simp add: limiter_one_eq)
  show ?thesis
    using registry_cap [where cfg = config_one and calls = "[]" and s = limiter_one
                          and clientId = "''b''" and now = 7]
          registry_cap [where cfg = config_one and calls = "[]" and s = limiter_one
                          and clientId = "''a''" and now = 7] a b c
    by simp
qed

text \<open>
  Claim C4. \<^verbatim>\<open>getOrCreateBucket\<close> returns no bucket exactly when the client has no entry and
  the registry is at its cap; \<^verbatim>\<open>allowRequest\<close> then returns \<open>False\<close>. Whenever a bucket is
  returned (found or created), \<^verbatim>\<open>allowRequest\<close> returns the verdict of \<^verbatim>\<open>consume(1)\<close> on that
  bucket. So \<open>False\<close> comes from a refusal of \<^verbatim>\<open>consume(1)\<close> or from a full registry and from
  nothing else, and the result, a boolean, does not tell the two apart.
\<close>

theorem allowRequest_false_cases:
  "(fst (getOrCreateBucket s clientId tNew) = None \<longleftrightarrow>
      fmlookup (clients_m s) clientId = None \<and>
      unat (maxClients (config_m s)) \<le> fcard (fmdom (clients_m s))) \<and>
   (fst (getOrCreateBucket s clientId tNew) = None \<longrightarrow>
      fst (allowRequest s clientId start tNew tNow finish) = False) \<and>
   (fst (getOrCreateBucket s clientId tNew) = Some b \<longrightarrow>
      fst (allowRequest s clientId start tNew tNow finish) = fst (consume b 1 tNow))"
proof -
  obtain ob s' where g: "getOrCreateBucket s clientId tNew = (ob, s')"
    by (cases "getOrCreateBucket s clientId tNew")
  have 1: "fst (allowRequest s clientId start tNew tNow finish)
           = fst (allowRequestInternal s clientId tNew tNow)"
    by (simp add: allowRequest_def Let_def split: prod.splits)
  have 2: "ob = None \<Longrightarrow> fst (allowRequestInternal s clientId tNew tNow) = False"
    by (simp add: allowRequestInternal_def g)
  have 3: "ob = Some b \<Longrightarrow> fst (allowRequestInternal s clientId tNew tNow) = fst (consume b 1 tNow)"
    by (simp add: allowRequestInternal_def g split: prod.splits)
  show ?thesis
    using getOrCreateBucket_None_iff [of s clientId tNew] 1 2 3 g by simp
qed

text \<open>The theorem at the one-client limiter and at the new limiter it came from.\<close>

theorem allowRequest_false_cases_witness:
  "fst (getOrCreateBucket limiter_one ''b'' 3) = None \<and>
   fst (allowRequest limiter_one ''b'' 1 3 4 9) = False \<and>
   fst (getOrCreateBucket (RateLimiter_init config_one) ''a'' 3) = Some (TokenBucket_new 1 0 3) \<and>
   fst (allowRequest (RateLimiter_init config_one) ''a'' 1 3 4 9) = True \<and>
   fst (allowRequest limiter_one ''a'' 1 3 4 9) = False"
proof -
  have a: "fmlookup (clients_m limiter_one) ''b'' = None"
    by (simp add: limiter_one_eq)
  have b: "unat (maxClients (config_m limiter_one)) \<le> fcard (fmdom (clients_m limiter_one))"
    by (simp add: limiter_one_eq config_one_def fcard_finsert_disjoint fcard_fempty)
  have n: "fst (getOrCreateBucket limiter_one ''b'' 3) = None"
    using allowRequest_false_cases [where s = limiter_one and clientId = "''b''" and tNew = 3] a b
    by simp
  have g: "fst (getOrCreateBucket (RateLimiter_init config_one) ''a'' 3) = Some (TokenBucket_new 1 0 3)"
    by (simp add: getOrCreateBucket_def RateLimiter_init_def config_one_def
          RateLimiterConfig_default_def fcard_fempty Let_def)
  have c: "fst (consume (TokenBucket_new 1 0 3) 1 4) = True"
    by (simp add: consume_def refillTokens_def TokenBucket_new_def to_double_def Let_def)
  have g2: "fst (getOrCreateBucket limiter_one ''a'' 3) =
     Some \<lparr> tokens_m = 0, bucketSize_m = 1, refillRate_m = 0, lastRefill_m = 0,
            totalRequests_m = 1, acceptedRequests_m = 1 \<rparr>"
    by (simp add: getOrCreateBucket_def limiter_one_eq)
  have c2: "fst (consume \<lparr> tokens_m = 0, bucketSize_m = 1, refillRate_m = 0, lastRefill_m = 0,
            totalRequests_m = 1, acceptedRequests_m = 1 \<rparr> 1 4) = False"
    by (simp add: consume_def refillTokens_def to_double_def Let_def)
  show ?thesis
    using allowRequest_false_cases [where s = limiter_one and clientId = "''b''" and tNew = 3
                                      and start = 1 and tNow = 4 and finish = 9]
          allowRequest_false_cases [where s = "RateLimiter_init config_one" and clientId = "''a''"
                                      and tNew = 3 and start = 1 and tNow = 4 and finish = 9
                                      and b = "TokenBucket_new 1 0 3"]
          allowRequest_false_cases [where s = limiter_one and clientId = "''a''" and tNew = 3
                                      and start = 1 and tNow = 4 and finish = 9
                                      and b = "\<lparr> tokens_m = 0, bucketSize_m = 1, refillRate_m = 0,
                                                lastRefill_m = 0, totalRequests_m = 1,
                                                acceptedRequests_m = 1 \<rparr>"]
          n g c g2 c2
    by simp
qed

text \<open>
  Claim C8. For a client without an entry \<^verbatim>\<open>getClientStatistics\<close> returns a view with zero
  remaining tokens, zero total and accepted requests, and the default bucket size and
  refill rate of the configuration, and leaves the limiter as it is. For a client with an
  entry it returns the snapshot of that entry's bucket (which refills the bucket). The
  function is total: there is no error result.
\<close>

theorem getClientStatistics_view:
  "(fmlookup (clients_m s) clientId = None \<longrightarrow>
      getClientStatistics s clientId now =
        (\<lparr> tokensRemaining = 0,
           clientBucketSize = defaultBucketSize (config_m s),
           clientRefillRate = defaultRefillRate (config_m s),
           clientTotalRequests = 0,
           clientAcceptedRequests = 0,
           lastRefill = now \<rparr>, s)) \<and>
   (fmlookup (clients_m s) clientId = Some b \<longrightarrow>
      fst (getClientStatistics s clientId now) = fst (TokenBucket_getStatistics b now) \<and>
      snd (getClientStatistics s clientId now) =
        s\<lparr> clients_m := fmupd clientId (snd (TokenBucket_getStatistics b now)) (clients_m s) \<rparr>)"
  by (simp add: getClientStatistics_def split: prod.splits)

text \<open>The theorem at the one-client limiter, for the unknown client \<open>b\<close> and the known \<open>a\<close>.\<close>

theorem getClientStatistics_view_witness:
  "fmlookup (clients_m limiter_one) ''b'' = None \<and>
   getClientStatistics limiter_one ''b'' 8 =
     (\<lparr> tokensRemaining = 0, clientBucketSize = 1, clientRefillRate = 0,
        clientTotalRequests = 0, clientAcceptedRequests = 0, lastRefill = 8 \<rparr>, limiter_one) \<and>
   fmlookup (clients_m limiter_one) ''a'' =
     Some \<lparr> tokens_m = 0, bucketSize_m = 1, refillRate_m = 0, lastRefill_m = 0,
            totalRequests_m = 1, acceptedRequests_m = 1 \<rparr> \<and>
   fst (getClientStatistics limiter_one ''a'' 8) =
     \<lparr> tokensRemaining = 0, clientBucketSize = 1, clientRefillRate = 0,
       clientTotalRequests = 1, clientAcceptedRequests = 1, lastRefill = 8 \<rparr>"
proof -
  have a: "fmlookup (clients_m limiter_one) ''b'' = None"
    by (simp add: limiter_one_eq)
  have c: "fmlookup (clients_m limiter_one) ''a'' =
     Some \<lparr> tokens_m = 0, bucketSize_m = 1, refillRate_m = 0, lastRefill_m = 0,
            totalRequests_m = 1, acceptedRequests_m = 1 \<rparr>"
    by (simp add: limiter_one_eq)
  have d: "defaultBucketSize (config_m limiter_one) = 1" "defaultRefillRate (config_m limiter_one) = 0"
    by (simp_all add: limiter_one_eq config_one_def)
  have e: "fst (TokenBucket_getStatistics \<lparr> tokens_m = 0, bucketSize_m = 1, refillRate_m = 0,
              lastRefill_m = 0, totalRequests_m = 1, acceptedRequests_m = 1 \<rparr> 8) =
     \<lparr> tokensRemaining = 0, clientBucketSize = 1, clientRefillRate = 0,
       clientTotalRequests = 1, clientAcceptedRequests = 1, lastRefill = 8 \<rparr>"
    by (simp add: TokenBucket_getStatistics_def refillTokens_def Let_def to_double_def
          size_t_of_double_def)
  show ?thesis
    using getClientStatistics_view [where s = limiter_one and clientId = "''b''" and now = 8]
          getClientStatistics_view [where s = limiter_one and clientId = "''a''" and now = 8
             and b = "\<lparr> tokens_m = 0, bucketSize_m = 1, refillRate_m = 0,
              lastRefill_m = 0, totalRequests_m = 1, acceptedRequests_m = 1 \<rparr>"]
          a c d e
    by simp
qed

text \<open>
  Claim C9 as stated fails: in the one-client limiter, whose registry is full with client
  \<open>a\<close>, a limit update for client \<open>b\<close> is followed by a \<^verbatim>\<open>getOrCreateBucket\<close> for \<open>b\<close> that
  returns no bucket.
\<close>

theorem updateClientLimit_next_cell_counterexample:
  "fst (getOrCreateBucket (updateClientLimit limiter_one ''b'' 5 1) ''b'' 7) = None"
  by (simp add: getOrCreateBucket_def updateClientLimit_def limiter_one_eq config_one_def
        RateLimiterConfig_default_def fcard_finsert_disjoint fcard_fempty)

text \<open>
  Claim C9, amended. \<^verbatim>\<open>updateClientLimit\<close> stores the pair (capacity, refill rate) in the
  override table and removes the client's entry. If the registry then holds fewer than
  \<^verbatim>\<open>maxClients\<close> entries, the next \<^verbatim>\<open>getOrCreateBucket\<close> for that client builds and registers
  a bucket with the new capacity and refill rate, a full token level and both counters
  zero; otherwise it returns no bucket and changes nothing.
\<close>

theorem updateClientLimit_next_cell:
  "fmlookup (clientLimits (config_m (updateClientLimit s clientId c r))) clientId = Some (c, r) \<and>
   fmlookup (clients_m (updateClientLimit s clientId c r)) clientId = None \<and>
   (fcard (fmdom (clients_m (updateClientLimit s clientId c r)))
      < unat (maxClients (config_m (updateClientLimit s clientId c r))) \<longrightarrow>
    fst (getOrCreateBucket (updateClientLimit s clientId c r) clientId now)
      = Some \<lparr> tokens_m = to_double c, bucketSize_m = c, refillRate_m = r, lastRefill_m = now,
               totalRequests_m = 0, acceptedRequests_m = 0 \<rparr> \<and>
    fmlookup (clients_m (snd (getOrCreateBucket (updateClientLimit s clientId c r) clientId now)))
        clientId
      = Some \<lparr> tokens_m = to_double c, bucketSize_m = c, refillRate_m = r, lastRefill_m = now,
               totalRequests_m = 0, acceptedRequests_m = 0 \<rparr>) \<and>
   (unat (maxClients (config_m (updateClientLimit s clientId c r)))
      \<le> fcard (fmdom (clients_m (updateClientLimit s clientId c r))) \<longrightarrow>
    getOrCreateBucket (updateClientLimit s clientId c r) clientId now
      = (None, updateClientLimit s clientId c r))"
proof -
  let ?s = "updateClientLimit s clientId c r"
  have l: "fmlookup (clientLimits (config_m ?s)) clientId = Some (c, r)"
    by (simp add: updateClientLimit_def)
  have n: "fmlookup (clients_m ?s) clientId = None"
    by (simp add: updateClientLimit_def)
  have cr: "fcard (fmdom (clients_m ?s)) < unat (maxClients (config_m ?s)) \<Longrightarrow>
    getOrCreateBucket ?s clientId now =
      (Some (TokenBucket_new c r now),
       ?s\<lparr> clients_m := fmupd clientId (TokenBucket_new c r now) (clients_m ?s),
           stats_m := (stats_m ?s)\<lparr> activeClients := activeClients (stats_m ?s) + 1 \<rparr> \<rparr>)"
    using getOrCreateBucket_create [OF n, of now] l by (simp add: Let_def)
  show ?thesis
    using l n cr getOrCreateBucket_full [OF n, of now]
    by (auto simp: TokenBucket_new_def)
qed

text \<open>The theorem at the one-client limiter: an update for \<open>a\<close> leaves room, one for \<open>b\<close> does not.\<close>

theorem updateClientLimit_next_cell_witness:
  "fcard (fmdom (clients_m (updateClientLimit limiter_one ''a'' 5 2)))
      < unat (maxClients (config_m (updateClientLimit limiter_one ''a'' 5 2))) \<and>
   fst (getOrCreateBucket (updateClientLimit limiter_one ''a'' 5 2) ''a'' 7)
      = Some \<lparr> tokens_m = 5, bucketSize_m = 5, refillRate_m = 2, lastRefill_m = 7,
               totalRequests_m = 0, acceptedRequests_m = 0 \<rparr> \<and>
   unat (maxClients (config_m (updateClientLimit limiter_one ''b'' 5 2)))
      \<le> fcard (fmdom (clients_m (updateClientLimit limiter_one ''b'' 5 2))) \<and>
   getOrCreateBucket (updateClientLimit limiter_one ''b'' 5 2) ''b'' 7
      = (None, updateClientLimit limiter_one ''b'' 5 2)"
proof -
  have a: "fcard (fmdom (clients_m (updateClientLimit limiter_one ''a'' 5 2)))
      < unat (maxClients (config_m (updateClientLimit limiter_one ''a'' 5 2)))"
    by (simp add: updateClientLimit_def limiter_one_eq config_one_def fcard_fempty)
  have b: "unat (maxClients (config_m (updateClientLimit limiter_one ''b'' 5 2)))
      \<le> fcard (fmdom (clients_m (updateClientLimit limiter_one ''b'' 5 2)))"
    by (simp add: updateClientLimit_def limiter_one_eq config_one_def fcard_finsert_disjoint
          fcard_fempty)
  have t: "to_double 5 = 5" by (simp add: to_double_def)
  show ?thesis
    using updateClientLimit_next_cell [where s = limiter_one and clientId = "''a''" and c = 5
             and r = 2 and now = 7]
          updateClientLimit_next_cell [where s = limiter_one and clientId = "''b''" and c = 5
             and r = 2 and now = 7] a b t
    by simp
qed

lemma allowRequest_clients:
  "clients_m (snd (allowRequest s clientId start tNew tNow finish))
     = clients_m (snd (allowRequestInternal s clientId tNew tNow))"
  by (simp add: allowRequest_def Let_def split: prod.splits)

lemma allowRequest_activeClients:
  "activeClients (stats_m (snd (allowRequest s clientId start tNew tNow finish)))
     = activeClients (stats_m (snd (allowRequestInternal s clientId tNew tNow)))"
  by (simp add: allowRequest_def Let_def split: prod.splits)

lemma allowRequestInternal_created:
  assumes "fmlookup (clients_m s) clientId = None"
    and "fcard (fmdom (clients_m s)) < unat (maxClients (config_m s))"
  shows "fmdom (clients_m (snd (allowRequestInternal s clientId tNew tNow)))
           = finsert clientId (fmdom (clients_m s))"
    and "activeClients (stats_m (snd (allowRequestInternal s clientId tNew tNow)))
           = activeClients (stats_m s) + 1"
  using getOrCreateBucket_create [OF assms, of tNew]
  by (simp_all add: allowRequestInternal_def Let_def split: prod.splits)

lemma unat_plus_one: "(x :: 64 word) + 1 \<noteq> 0 \<Longrightarrow> unat (x + 1) = Suc (unat x)"
  using unatSuc [of x] by (simp add: add.commute)

lemma unat_minus_one_present:
  assumes "unat (x :: 64 word) = fcard A" "k |\<in>| A"
  shows "unat (x - 1) = fcard (A |-| {|k|})"
proof -
  have c: "Suc (fcard (A |-| {|k|})) = fcard A" by (rule fcard_Suc_fminus1 [OF assms(2)])
  have "x \<noteq> 0"
  proof
    assume "x = 0"
    then have "unat x = 0" by simp
    with assms(1) c show False by linarith
  qed
  then have "unat (x - 1) = unat x - 1" by (rule unat_minus_one)
  with assms(1) c show ?thesis by linarith
qed

lemma cleanup_loop_lookup:
  "fmlookup (clients_m (cleanup_loop ks t s)) k =
     (if k \<in> set ks \<and> (\<exists>b. fmlookup (clients_m s) k = Some b \<and> getLastAccess b < t) then None
      else fmlookup (clients_m s) k)"
proof (induction ks arbitrary: s)
  case Nil
  then show ?case by simp
next
  case (Cons k0 ks)
  show ?case
  proof (cases "\<exists>b. fmlookup (clients_m s) k0 = Some b \<and> getLastAccess b < t")
    case True
    then obtain b0 where b0: "fmlookup (clients_m s) k0 = Some b0" "getLastAccess b0 < t" by blast
    let ?s' = "s\<lparr> clients_m := fmdrop k0 (clients_m s),
                   stats_m := (stats_m s)\<lparr> activeClients := activeClients (stats_m s) - 1 \<rparr> \<rparr>"
    have step: "cleanup_loop (k0 # ks) t s = cleanup_loop ks t ?s'" using b0 by simp
    have l: "fmlookup (clients_m ?s') k = (if k = k0 then None else fmlookup (clients_m s) k)"
      by simp
    show ?thesis
      unfolding step Cons.IH [of ?s'] l using b0 by auto
  next
    case False
    then have step: "cleanup_loop (k0 # ks) t s = cleanup_loop ks t s"
      by (auto split: option.splits)
    show ?thesis
      unfolding step Cons.IH [of s] using False by auto
  qed
qed

lemma cleanup_loop_fcard_le:
  "fcard (fmdom (clients_m (cleanup_loop ks t s))) \<le> fcard (fmdom (clients_m s))"
proof (induction ks arbitrary: s)
  case Nil
  then show ?case by simp
next
  case (Cons k0 ks)
  let ?s' = "s\<lparr> clients_m := fmdrop k0 (clients_m s),
                 stats_m := (stats_m s)\<lparr> activeClients := activeClients (stats_m s) - 1 \<rparr> \<rparr>"
  have "fcard (fmdom (clients_m (cleanup_loop ks t ?s'))) \<le> fcard (fmdom (clients_m ?s'))"
    by (rule Cons.IH)
  also have "fcard (fmdom (clients_m ?s')) \<le> fcard (fmdom (clients_m s))"
    using fcard_fmdrop_le [of k0 "clients_m s"] by simp
  finally show ?case
    using Cons.IH [of s] by (simp split: option.splits)
qed

lemma cleanup_loop_decrement:
  "activeClients (stats_m (cleanup_loop ks t s)) =
     activeClients (stats_m s)
       - of_nat (fcard (fmdom (clients_m s)) - fcard (fmdom (clients_m (cleanup_loop ks t s))))"
proof (induction ks arbitrary: s)
  case Nil
  then show ?case by simp
next
  case (Cons k0 ks)
  show ?case
  proof (cases "\<exists>b. fmlookup (clients_m s) k0 = Some b \<and> getLastAccess b < t")
    case True
    then obtain b0 where b0: "fmlookup (clients_m s) k0 = Some b0" "getLastAccess b0 < t" by blast
    let ?s' = "s\<lparr> clients_m := fmdrop k0 (clients_m s),
                   stats_m := (stats_m s)\<lparr> activeClients := activeClients (stats_m s) - 1 \<rparr> \<rparr>"
    let ?f = "cleanup_loop ks t ?s'"
    have step: "cleanup_loop (k0 # ks) t s = ?f" using b0 by simp
    have mem: "k0 |\<in>| fmdom (clients_m s)" using b0(1) by (rule fmdomI)
    have "fmdom (clients_m ?s') = fmdom (clients_m s) |-| {|k0|}" by simp
    then have c: "Suc (fcard (fmdom (clients_m ?s'))) = fcard (fmdom (clients_m s))"
      using fcard_Suc_fminus1 [OF mem] by simp
    have le: "fcard (fmdom (clients_m ?f)) \<le> fcard (fmdom (clients_m ?s'))"
      by (rule cleanup_loop_fcard_le)
    have d: "fcard (fmdom (clients_m s)) - fcard (fmdom (clients_m ?f))
               = Suc (fcard (fmdom (clients_m ?s')) - fcard (fmdom (clients_m ?f)))"
      using c le by linarith
    have a: "activeClients (stats_m ?s') = activeClients (stats_m s) - 1" by simp
    show ?thesis
      unfolding step Cons.IH [of ?s'] d a by simp
  next
    case False
    then have step: "cleanup_loop (k0 # ks) t s = cleanup_loop ks t s"
      by (auto split: option.splits)
    show ?thesis
      unfolding step by (rule Cons.IH)
  qed
qed

lemma cleanup_loop_count:
  "unat (activeClients (stats_m s)) = fcard (fmdom (clients_m s)) \<Longrightarrow>
   unat (activeClients (stats_m (cleanup_loop ks t s)))
     = fcard (fmdom (clients_m (cleanup_loop ks t s)))"
proof (induction ks arbitrary: s)
  case Nil
  then show ?case by simp
next
  case (Cons k0 ks)
  show ?case
  proof (cases "\<exists>b. fmlookup (clients_m s) k0 = Some b \<and> getLastAccess b < t")
    case True
    then obtain b0 where b0: "fmlookup (clients_m s) k0 = Some b0" "getLastAccess b0 < t" by blast
    let ?s' = "s\<lparr> clients_m := fmdrop k0 (clients_m s),
                   stats_m := (stats_m s)\<lparr> activeClients := activeClients (stats_m s) - 1 \<rparr> \<rparr>"
    have step: "cleanup_loop (k0 # ks) t s = cleanup_loop ks t ?s'" using b0 by simp
    have mem: "k0 |\<in>| fmdom (clients_m s)" using b0(1) by (rule fmdomI)
    have "unat (activeClients (stats_m s) - 1) = fcard (fmdom (clients_m s) |-| {|k0|})"
      by (rule unat_minus_one_present [OF Cons.prems mem])
    then have "unat (activeClients (stats_m ?s')) = fcard (fmdom (clients_m ?s'))"
      by simp
    then show ?thesis
      unfolding step by (rule Cons.IH)
  next
    case False
    then have step: "cleanup_loop (k0 # ks) t s = cleanup_loop ks t s"
      by (auto split: option.splits)
    show ?thesis
      unfolding step by (rule Cons.IH [OF Cons.prems])
  qed
qed

lemma cleanup_lookup:
  "fmlookup (clients_m (cleanup s now)) k =
     (if \<exists>b. fmlookup (clients_m s) k = Some b
              \<and> getLastAccess b < cleanup_threshold (config_m s) now then None
      else fmlookup (clients_m s) k)"
proof -
  have "k \<in> set (sorted_list_of_fset (fmdom (clients_m s)))" if "fmlookup (clients_m s) k = Some b"
    for b
    using fmdomI [OF that] by simp
  then show ?thesis
    unfolding cleanup_def Let_def cleanup_loop_lookup by auto
qed

text \<open>
  Claim C10. Let a client have an entry in a limiter whose \<^verbatim>\<open>activeClients\<close> equals the number
  of entries, within the cap, and not at the top of its 64-bit range.
  \<^item> \<^verbatim>\<open>updateClientLimit\<close> for that client removes the entry and leaves \<^verbatim>\<open>activeClients\<close> as it
    is; after the client's next request \<^verbatim>\<open>activeClients\<close> is greater than the number of
    entries.
  \<^item> \<^verbatim>\<open>removeClient\<close>, in the same state, erases the entry and takes 1 from
    \<^verbatim>\<open>activeClients\<close>, which keeps the two equal.
  \<^item> \<^verbatim>\<open>cleanup\<close>, the sweep, in the same state, erases exactly the entries whose last access
    lies before the threshold, this client's among them if it is idle, and takes from
    \<^verbatim>\<open>activeClients\<close> the number of entries it erased (1 if this client's idle entry is the
    only entry), which keeps the two equal.
\<close>

theorem activeClients_drift:
  assumes "fmlookup (clients_m s) clientId = Some b"
    and "unat (activeClients (stats_m s)) = fcard (fmdom (clients_m s))"
    and "fcard (fmdom (clients_m s)) \<le> unat (maxClients (config_m s))"
    and "activeClients (stats_m s) + 1 \<noteq> 0"
  shows "activeClients (stats_m (updateClientLimit s clientId c r)) = activeClients (stats_m s) \<and>
         Suc (fcard (fmdom (clients_m (updateClientLimit s clientId c r))))
           = fcard (fmdom (clients_m s)) \<and>
         fcard (fmdom (clients_m (snd (allowRequest (updateClientLimit s clientId c r)
                                          clientId start tNew tNow finish))))
           < unat (activeClients (stats_m (snd (allowRequest (updateClientLimit s clientId c r)
                                                  clientId start tNew tNow finish)))) \<and>
         clients_m (removeClient s clientId) = fmdrop clientId (clients_m s) \<and>
         fmlookup (clients_m (removeClient s clientId)) clientId = None \<and>
         activeClients (stats_m (removeClient s clientId)) = activeClients (stats_m s) - 1 \<and>
         unat (activeClients (stats_m (removeClient s clientId)))
           = fcard (fmdom (clients_m (removeClient s clientId))) \<and>
         fmlookup (clients_m (cleanup s now)) k =
           (if \<exists>b'. fmlookup (clients_m s) k = Some b'
                     \<and> getLastAccess b' < cleanup_threshold (config_m s) now then None
            else fmlookup (clients_m s) k) \<and>
         (getLastAccess b < cleanup_threshold (config_m s) now \<longrightarrow>
            fmlookup (clients_m (cleanup s now)) clientId = None) \<and>
         activeClients (stats_m (cleanup s now)) =
           activeClients (stats_m s)
             - of_nat (fcard (fmdom (clients_m s)) - fcard (fmdom (clients_m (cleanup s now)))) \<and>
         (getLastAccess b < cleanup_threshold (config_m s) now
            \<and> fmdom (clients_m s) = {|clientId|} \<longrightarrow>
            activeClients (stats_m (cleanup s now)) = activeClients (stats_m s) - 1) \<and>
         unat (activeClients (stats_m (cleanup s now)))
           = fcard (fmdom (clients_m (cleanup s now)))"
proof -
  let ?s1 = "updateClientLimit s clientId c r"
  let ?s2 = "snd (allowRequest ?s1 clientId start tNew tNow finish)"
  let ?t = "cleanup_threshold (config_m s) now"
  have mem: "clientId |\<in>| fmdom (clients_m s)" using assms(1) by (rule fmdomI)
  have a1: "activeClients (stats_m ?s1) = activeClients (stats_m s)"
    by (simp add: updateClientLimit_def)
  have dom1: "fmdom (clients_m ?s1) = fmdom (clients_m s) |-| {|clientId|}"
    by (simp add: updateClientLimit_def)
  have card1: "Suc (fcard (fmdom (clients_m ?s1))) = fcard (fmdom (clients_m s))"
    unfolding dom1 by (rule fcard_Suc_fminus1 [OF mem])
  have none1: "fmlookup (clients_m ?s1) clientId = None"
    by (simp add: updateClientLimit_def)
  have max1: "maxClients (config_m ?s1) = maxClients (config_m s)"
    by (simp add: updateClientLimit_def)
  have room: "fcard (fmdom (clients_m ?s1)) < unat (maxClients (config_m ?s1))"
    using card1 assms(3) max1 by simp
  have dom2: "fmdom (clients_m ?s2) = fmdom (clients_m s)"
    unfolding allowRequest_clients allowRequestInternal_created(1) [OF none1 room, of tNew tNow] dom1
    by (rule finsert_fminus [OF mem])
  have a2: "activeClients (stats_m ?s2) = activeClients (stats_m s) + 1"
    using allowRequestInternal_created(2) [OF none1 room, of tNew tNow]
    by (simp add: allowRequest_activeClients a1)
  have "unat (activeClients (stats_m ?s2)) = Suc (fcard (fmdom (clients_m s)))"
    unfolding a2 using unat_plus_one [OF assms(4)] assms(2) by simp
  then have drift: "fcard (fmdom (clients_m ?s2)) < unat (activeClients (stats_m ?s2))"
    by (simp add: dom2)
  have r1: "clients_m (removeClient s clientId) = fmdrop clientId (clients_m s)"
    using mem by (simp add: removeClient_def)
  have r2: "fmlookup (clients_m (removeClient s clientId)) clientId = None"
    unfolding r1 by simp
  have r3: "activeClients (stats_m (removeClient s clientId)) = activeClients (stats_m s) - 1"
    using mem by (simp add: removeClient_def)
  have r4: "unat (activeClients (stats_m (removeClient s clientId)))
           = fcard (fmdom (clients_m (removeClient s clientId)))"
    unfolding r1 r3 using unat_minus_one_present [OF assms(2) mem] by simp
  have k1: "fmlookup (clients_m (cleanup s now)) k =
           (if \<exists>b'. fmlookup (clients_m s) k = Some b' \<and> getLastAccess b' < ?t then None
            else fmlookup (clients_m s) k)"
    by (rule cleanup_lookup)
  have k2: "getLastAccess b < ?t \<Longrightarrow> fmlookup (clients_m (cleanup s now)) clientId = None"
    unfolding cleanup_lookup using assms(1) by simp
  have k3: "activeClients (stats_m (cleanup s now)) =
           activeClients (stats_m s)
             - of_nat (fcard (fmdom (clients_m s)) - fcard (fmdom (clients_m (cleanup s now))))"
    unfolding cleanup_def Let_def by (rule cleanup_loop_decrement)
  have k4: "activeClients (stats_m (cleanup s now)) = activeClients (stats_m s) - 1"
    if idle: "getLastAccess b < ?t" and only: "fmdom (clients_m s) = {|clientId|}"
  proof -
    have "fmdom (clients_m (cleanup s now)) = {||}"
    proof (rule fset_eqI)
      fix x
      have "fmlookup (clients_m (cleanup s now)) x = None"
      proof (cases "x = clientId")
        case True
        then show ?thesis using k2 [OF idle] by simp
      next
        case False
        then have "x |\<notin>| fmdom (clients_m s)" using only by simp
        then have "fmlookup (clients_m s) x = None" by (rule fmdom_notD)
        then show ?thesis unfolding cleanup_lookup by simp
      qed
      then show "x |\<in>| fmdom (clients_m (cleanup s now)) \<longleftrightarrow> x |\<in>| {||}"
        by (simp add: fmlookup_dom_iff)
    qed
    then have "fcard (fmdom (clients_m s)) - fcard (fmdom (clients_m (cleanup s now))) = 1"
      using only by (simp add: fcard_fempty fcard_finsert_disjoint)
    then show ?thesis using k3 by simp
  qed
  have k5: "unat (activeClients (stats_m (cleanup s now)))
           = fcard (fmdom (clients_m (cleanup s now)))"
    unfolding cleanup_def Let_def by (rule cleanup_loop_count [OF assms(2)])
  show ?thesis
    using a1 card1 drift r1 r2 r3 r4 k1 k2 k3 k4 k5 by blast
qed

text \<open>
  The theorem at the one-client limiter and its client \<open>a\<close>, whose bucket was last refilled
  at tick 0: a sweep 400 seconds later, with the default interval of 300 seconds, finds it
  idle.
\<close>

theorem activeClients_drift_witness:
  "fmlookup (clients_m limiter_one) ''a'' =
     Some \<lparr> tokens_m = 0, bucketSize_m = 1, refillRate_m = 0, lastRefill_m = 0,
            totalRequests_m = 1, acceptedRequests_m = 1 \<rparr> \<and>
   unat (activeClients (stats_m limiter_one)) = fcard (fmdom (clients_m limiter_one)) \<and>
   fcard (fmdom (clients_m limiter_one)) \<le> unat (maxClients (config_m limiter_one)) \<and>
   activeClients (stats_m limiter_one) + 1 \<noteq> 0 \<and>
   fcard (fmdom (clients_m (snd (allowRequest (updateClientLimit limiter_one ''a'' 5 2)
                                    ''a'' 0 1 2 3))))
     < unat (activeClients (stats_m (snd (allowRequest (updateClientLimit limiter_one ''a'' 5 2)
                                            ''a'' 0 1 2 3)))) \<and>
   fmlookup (clients_m (removeClient limiter_one ''a'')) ''a'' = None \<and>
   activeClients (stats_m (removeClient limiter_one ''a'')) = 0 \<and>
   getLastAccess \<lparr> tokens_m = 0, bucketSize_m = 1, refillRate_m = 0, lastRefill_m = 0,
                   totalRequests_m = 1, acceptedRequests_m = 1 \<rparr>
     < cleanup_threshold (config_m limiter_one) 400000000000 \<and>
   fmdom (clients_m limiter_one) = {|''a''|} \<and>
   fmlookup (clients_m (cleanup limiter_one 400000000000)) ''a'' = None \<and>
   activeClients (stats_m (cleanup limiter_one 400000000000)) = 0"
proof -
  let ?b = "\<lparr> tokens_m = 0, bucketSize_m = 1, refillRate_m = 0, lastRefill_m = 0,
              totalRequests_m = 1, acceptedRequests_m = 1 \<rparr>"
  have h1: "fmlookup (clients_m limiter_one) ''a'' = Some ?b"
    by (simp add: limiter_one_eq)
  have h2: "unat (activeClients (stats_m limiter_one)) = fcard (fmdom (clients_m limiter_one))"
    by (simp add: limiter_one_eq fcard_finsert_disjoint fcard_fempty)
  have h3: "fcard (fmdom (clients_m limiter_one)) \<le> unat (maxClients (config_m limiter_one))"
    by (simp add: limiter_one_eq config_one_def fcard_finsert_disjoint fcard_fempty)
  have h4: "activeClients (stats_m limiter_one) + 1 \<noteq> 0"
    by (simp add: limiter_one_eq)
  have w: "int64_wrap 300000000000 = 300000000000" "int64_wrap 100000000000 = 100000000000"
    by (simp_all add: int64_wrap_def)
  have i: "getLastAccess ?b < cleanup_threshold (config_m limiter_one) 400000000000"
    by (simp add: getLastAccess_def cleanup_threshold_def limiter_one_eq config_one_def
          RateLimiterConfig_default_def w)
  have d: "fmdom (clients_m limiter_one) = {|''a''|}"
    by (simp add: limiter_one_eq)
  have a: "activeClients (stats_m limiter_one) = 1"
    by (simp add: limiter_one_eq)
  note T = activeClients_drift [OF h1 h2 h3 h4, of 5 2 0 1 2 3 400000000000 "''a''"]
  have c3: "fcard (fmdom (clients_m (snd (allowRequest (updateClientLimit limiter_one ''a'' 5 2)
                                    ''a'' 0 1 2 3))))
     < unat (activeClients (stats_m (snd (allowRequest (updateClientLimit limiter_one ''a'' 5 2)
                                            ''a'' 0 1 2 3))))"
    using T by blast
  have r2: "fmlookup (clients_m (removeClient limiter_one ''a'')) ''a'' = None"
    using T by blast
  have "activeClients (stats_m (removeClient limiter_one ''a''))
          = activeClients (stats_m limiter_one) - 1"
    using T by blast
  then have r3: "activeClients (stats_m (removeClient limiter_one ''a'')) = 0"
    unfolding a by simp
  have k2: "fmlookup (clients_m (cleanup limiter_one 400000000000)) ''a'' = None"
    using T i by blast
  have "activeClients (stats_m (cleanup limiter_one 400000000000))
          = activeClients (stats_m limiter_one) - 1"
    using T i d by blast
  then have k4: "activeClients (stats_m (cleanup limiter_one 400000000000)) = 0"
    unfolding a by simp
  show ?thesis
    using h1 h2 h3 h4 c3 r2 r3 i d k2 k4 by blast
qed

section \<open>Statistics, reset and construction\<close>

text \<open>
  Claim C5 as stated fails: after \<^verbatim>\<open>reset\<close> of the one-client limiter, \<^verbatim>\<open>getStatistics\<close> reports
  one active client, not zero.
\<close>

theorem reset_counterexample:
  "activeClients (getStatistics (reset limiter_one clock_nine)) = 1"
  by (simp add: getStatistics_def reset_def limiter_one_eq)

lemma rank_in_range:
  assumes "0 \<le> q" "q \<le> 1" "0 < n"
  shows "nat \<lfloor>q * real (n - 1)\<rfloor> < n"
proof -
  have "q * real (n - 1) \<le> real (n - 1)"
    by (rule mult_left_le_one_le) (use assms in simp_all)
  then have "\<lfloor>q * real (n - 1)\<rfloor> \<le> int (n - 1)"
    by (simp add: floor_le_iff)
  then show ?thesis using assms(3) by linarith
qed

lemma getPercentile_spec:
  "getPercentile (sort samples) p = spec_percentile samples p"
  by (simp add: getPercentile_def spec_percentile_def Let_def)

text \<open>
  Claim C5, amended. \<^verbatim>\<open>reset\<close> keeps the set of registered clients and the configuration
  (with its override table); every registered bucket gets a full token level, a new refill
  time and both counters zero; the counters for total, accepted and rejected requests and
  the total latency become zero and the latency samples are cleared, while \<^verbatim>\<open>activeClients\<close>
  keeps its value. Right after it \<^verbatim>\<open>getStatistics\<close> reports zero for every counter but
  \<^verbatim>\<open>activeClients\<close>, a zero average latency, and \<^verbatim>\<open>getLatencyPercentiles\<close> reports five zeros.
\<close>

theorem reset_effect:
  "fmdom (clients_m (reset s nowOf)) = fmdom (clients_m s) \<and>
   (fmlookup (clients_m s) clientId = Some b \<longrightarrow>
      fmlookup (clients_m (reset s nowOf)) clientId =
        Some (b\<lparr> tokens_m := to_double (bucketSize_m b), lastRefill_m := nowOf clientId,
                 totalRequests_m := 0, acceptedRequests_m := 0 \<rparr>)) \<and>
   config_m (reset s nowOf) = config_m s \<and>
   totalRequests (getStatistics (reset s nowOf)) = 0 \<and>
   acceptedRequests (getStatistics (reset s nowOf)) = 0 \<and>
   rejectedRequests (getStatistics (reset s nowOf)) = 0 \<and>
   totalLatency (getStatistics (reset s nowOf)) = 0 \<and>
   getAverageLatency (getStatistics (reset s nowOf)) = 0 \<and>
   activeClients (getStatistics (reset s nowOf)) = activeClients (stats_m s) \<and>
   latencyMeasurements_m (reset s nowOf) = [] \<and>
   getLatencyPercentiles (reset s nowOf) = [0, 0, 0, 0, 0]"
  by (simp add: reset_def getStatistics_def getAverageLatency_def getLatencyPercentiles_def
        TokenBucket_reset_def)

text \<open>The theorem at the one-client limiter and its client \<open>a\<close>.\<close>

theorem reset_effect_witness:
  "fmlookup (clients_m limiter_one) ''a'' =
     Some \<lparr> tokens_m = 0, bucketSize_m = 1, refillRate_m = 0, lastRefill_m = 0,
            totalRequests_m = 1, acceptedRequests_m = 1 \<rparr> \<and>
   fmlookup (clients_m (reset limiter_one clock_nine)) ''a'' =
     Some \<lparr> tokens_m = 1, bucketSize_m = 1, refillRate_m = 0, lastRefill_m = 9,
            totalRequests_m = 0, acceptedRequests_m = 0 \<rparr>"
proof -
  have h: "fmlookup (clients_m limiter_one) ''a'' =
     Some \<lparr> tokens_m = 0, bucketSize_m = 1, refillRate_m = 0, lastRefill_m = 0,
            totalRequests_m = 1, acceptedRequests_m = 1 \<rparr>"
    by (simp add: limiter_one_eq)
  show ?thesis
    using reset_effect [where s = limiter_one and nowOf = clock_nine and clientId = "''a''"
            and b = "\<lparr> tokens_m = 0, bucketSize_m = 1, refillRate_m = 0, lastRefill_m = 0,
                       totalRequests_m = 1, acceptedRequests_m = 1 \<rparr>"] h
    by (simp add: to_double_def clock_nine_def)
qed

text \<open>
  Claim C6. For an empty sample buffer \<^verbatim>\<open>getLatencyPercentiles\<close> returns five zeros. For a
  non-empty one it returns the nearest-rank percentiles of the specification for 50, 90,
  95, 99 and 99.9, in this order; each rank lies inside the buffer, so each value is one of
  the samples. The function takes the limiter and returns the five values only: the buffer
  is not changed.
\<close>

theorem latency_percentiles:
  "(latencyMeasurements_m s = [] \<longrightarrow> getLatencyPercentiles s = [0, 0, 0, 0, 0]) \<and>
   (latencyMeasurements_m s \<noteq> [] \<longrightarrow>
      getLatencyPercentiles s
        = map (spec_percentile (latencyMeasurements_m s)) [50, 90, 95, 99, 999 / 10] \<and>
      (\<forall>p \<in> set [50, 90, 95, 99, 999 / 10 :: real].
         nat \<lfloor>(p / 100) * real (length (latencyMeasurements_m s) - 1)\<rfloor>
           < length (latencyMeasurements_m s)) \<and>
      set (getLatencyPercentiles s) \<subseteq> set (latencyMeasurements_m s))"
proof -
  let ?xs = "latencyMeasurements_m s"
  have eq: "?xs \<noteq> [] \<Longrightarrow>
      getLatencyPercentiles s = map (spec_percentile ?xs) [50, 90, 95, 99, 999 / 10]"
    by (simp add: getLatencyPercentiles_def Let_def getPercentile_spec)
  have rk: "nat \<lfloor>(p / 100) * real (length ?xs - 1)\<rfloor> < length ?xs"
    if "?xs \<noteq> []" "p \<in> set [50, 90, 95, 99, 999 / 10 :: real]" for p
  proof -
    have "0 \<le> p / 100" "p / 100 \<le> 1" using that(2) by auto
    moreover have "0 < length ?xs" using that(1) by simp
    ultimately show ?thesis by (rule rank_in_range)
  qed
  have mem: "spec_percentile ?xs p \<in> set ?xs"
    if "?xs \<noteq> []" "p \<in> set [50, 90, 95, 99, 999 / 10 :: real]" for p
  proof -
    have "nat \<lfloor>(p / 100) * real (length ?xs - 1)\<rfloor> < length (sort ?xs)"
      unfolding length_sort by (rule rk [OF that])
    then have "sort ?xs ! nat \<lfloor>(p / 100) * real (length ?xs - 1)\<rfloor> \<in> set (sort ?xs)"
      by (rule nth_mem)
    then show ?thesis unfolding spec_percentile_def by (simp only: set_sort)
  qed
  have sub: "?xs \<noteq> [] \<Longrightarrow> set (getLatencyPercentiles s) \<subseteq> set ?xs"
    using mem by (simp add: eq)
  show ?thesis
    using eq rk sub by (simp add: getLatencyPercentiles_def)
qed

text \<open>The theorem at an empty buffer and at a buffer of five samples.\<close>

theorem latency_percentiles_witness:
  "latencyMeasurements_m (RateLimiter_init config_one) = [] \<and>
   getLatencyPercentiles (RateLimiter_init config_one) = [0, 0, 0, 0, 0] \<and>
   latencyMeasurements_m limiter_samples \<noteq> [] \<and>
   getLatencyPercentiles limiter_samples = [30, 40, 40, 40, 40] \<and>
   latencyMeasurements_m limiter_samples = [30, 10, 20, 50, 40]"
proof -
  have e: "latencyMeasurements_m (RateLimiter_init config_one) = []"
    by (simp add: RateLimiter_init_def)
  have n: "latencyMeasurements_m limiter_samples = [30, 10, 20, 50, 40]"
    by (simp add: limiter_samples_def)
  have v: "map (spec_percentile [30, 10, 20, 50, 40]) [50, 90, 95, 99, 999 / 10]
             = [30, 40, 40, 40, 40]"
    by (simp add: spec_percentile_def)
  show ?thesis
    using latency_percentiles [of "RateLimiter_init config_one"]
          latency_percentiles [of limiter_samples] e n v
    by simp
qed

text \<open>
  Claim C7 as stated fails: the constructor completes on a configuration that the
  specification calls invalid.
\<close>

theorem construction_counterexample:
  "spec_invalid_configuration config_invalid \<and> \<not> isl (RateLimiter_new config_invalid)"
  by (simp add: spec_invalid_configuration_def config_invalid_def RateLimiter_new_def
        RateLimiterConfig_default_def)

text \<open>
  Claim C7, amended. Both constructors complete on every input; the limiter they build
  holds the configuration as given and an empty registry.
\<close>

theorem construction_accepts:
  "RateLimiter_new config = Inr (RateLimiter_init config) \<and>
   config_m (RateLimiter_init config) = config \<and>
   clients_m (RateLimiter_init config) = fmempty \<and>
   RateLimiter_new_sized bucketSize refillRate =
     Inr (RateLimiter_init (RateLimiterConfig_default\<lparr> defaultBucketSize := bucketSize,
                                                       defaultRefillRate := refillRate \<rparr>))"
  by (simp add: RateLimiter_new_def RateLimiter_new_sized_def RateLimiter_init_def)

end
